theory Spec2Isabelle
  imports Complex_Main "HOL-Library.Sublist"
begin

section \<open>Data model\<close>

text \<open>
  The development embeds the delivery ledger \<^verbatim>\<open>WorkflowCache\<close>
  (\<^verbatim>\<open>src/services/WorkflowCache.ts\<close>) and the batching coordinator
  \<^verbatim>\<open>DatadogService.submitMetrics\<close> (\<^verbatim>\<open>src/services/DatadogService.ts\<close>, the version with
  \<^verbatim>\<open>batchSize\<close>), together with the earlier positional-slice version of the same method.

  A workflow identifier is a string. The ledger, the effects and the Transport do not look
  into a metric series, so their types take the type of a series as a parameter \<open>'s\<close>; the
  coordinator prints every series of a payload into the audit log, and is defined on the
  record \<open>metric_series\<close> below.

  What the embedding leaves out: console output; failures of the file system other than
  reading a ledger file (creating the \<^verbatim>\<open>cache\<close> and \<^verbatim>\<open>log\<close> directories, writing a ledger file and
  writing an audit log file succeed; what the audit log throws while it formats the
  timestamps of a payload, before it writes, is modelled); the text of an audit log file
  (it is determined by the payload and the mode, which the event records). The program is
  single-threaded, and the \<^verbatim>\<open>await\<close> of the Transport call is modelled by the outcome of the
  call.
\<close>

type_synonym workflow_id = string

text \<open>
  A JavaScript \<^verbatim>\<open>number\<close>: a finite value, \<^verbatim>\<open>NaN\<close>, or one of the two infinities. The finite
  values are taken as rationals; the only arithmetic done on them is the product
  \<^verbatim>\<open>point.timestamp * 1000\<close> of the audit log, compared with the bound \<^verbatim>\<open>8.64e15\<close> of a \<^verbatim>\<open>Date\<close>.
  Next to that bound the doubles are the integers and the product of a double with 1000
  is off the bound by almost 1 or more when it is not the bound itself, so the rounded
  product of the source is beyond the bound exactly when the exact product is.
\<close>

datatype js_number = Num rat | NaN | PosInfinity | NegInfinity

text \<open>
  The fields of a \<^verbatim>\<open>MetricPoint\<close> and of a \<^verbatim>\<open>MetricSeries\<close> that the program reads; an optional
  field that is \<^verbatim>\<open>undefined\<close> is \<open>None\<close>. \<open>pointValue\<close> is the field \<^verbatim>\<open>value\<close>, \<open>seriesType\<close> the field
  \<^verbatim>\<open>type\<close> and \<open>seriesUnit\<close> the field \<^verbatim>\<open>unit\<close>.
\<close>

record metric_point =
  timestamp :: "js_number option"
  pointValue :: "js_number option"

record metric_series =
  metric :: string
  seriesType :: "nat option"
  points :: "metric_point list"
  seriesUnit :: "string option"
  tags :: "string list option"

text \<open>
  Everything the code throws is an instance of the JavaScript \<^verbatim>\<open>Error\<close> class:
  \<^item> \<open>PairingMismatch a b\<close> is \<^verbatim>\<open>new Error(`Mismatch between series (${a}) and workflow IDs (${b})`)\<close>;
  \<^item> \<open>MissingApiKey\<close> is \<^verbatim>\<open>new Error("DD_API_KEY environment variable is required")\<close>;
  \<^item> \<open>ApiError m\<close> is an \<^verbatim>\<open>Error\<close> with message \<open>m\<close> with which the Transport rejected,
    rethrown unchanged by the \<^verbatim>\<open>catch\<close> of \<^verbatim>\<open>submitMetrics\<close>;
  \<^item> \<open>UnknownSubmitError\<close> is \<^verbatim>\<open>new Error("Unknown error submitting metrics")\<close>;
  \<^item> \<open>CacheReadError\<close> is what \<^verbatim>\<open>readFileSync\<close> throws on a file that is not there, and
    \<open>CacheParseError\<close> what \<^verbatim>\<open>JSON.parse\<close> (or the access to \<^verbatim>\<open>data.sent\<close>) throws on a file
    whose content is not a ledger;
  \<^item> \<open>InvalidTimeValue\<close> is the \<^verbatim>\<open>RangeError\<close> (\<^verbatim>\<open>Invalid time value\<close>) that \<^verbatim>\<open>toISOString\<close> throws
    on a \<^verbatim>\<open>Date\<close> that holds no time.
\<close>

datatype error =
    PairingMismatch nat nat
  | MissingApiKey
  | ApiError string
  | UnknownSubmitError
  | CacheReadError
  | CacheParseError
  | InvalidTimeValue

text \<open>
  The state of one ledger file in the \<^verbatim>\<open>cache\<close> directory: absent, present with a content
  on which \<^verbatim>\<open>JSON.parse(readFileSync(...))\<close> or the use of \<^verbatim>\<open>data.sent\<close> as an array throws,
  or present with the content \<^verbatim>\<open>{ "sent": [...] }\<close>, an array of strings in file order
  (the only content the program itself ever writes). A file edited by hand so that it
  parses and \<^verbatim>\<open>data.sent\<close> is a string, on which \<^verbatim>\<open>includes\<close> and the spread operator do not
  throw, is outside this model.
\<close>

datatype cache_file = Missing | Corrupt | SentFile "workflow_id list"

text \<open>
  The outcome of the promise returned by \<^verbatim>\<open>metricsApi.submitMetrics\<close>: resolved, rejected
  with an \<^verbatim>\<open>Error\<close> instance carrying a message, or rejected with a value that is not an
  \<^verbatim>\<open>Error\<close>.
\<close>

datatype api_result = Resolved | RejectedError string | RejectedOther

text \<open>
  The observable effects, in the order in which they happen: one read of a ledger file,
  one write of a ledger file with the array written, one audit log file (with the dry-run
  banner flag and the payload printed), one call of the Transport with its payload.
  Console output is not recorded.
\<close>

datatype 's event =
    LedgerRead string
  | LedgerWrite string "workflow_id list"
  | AuditWrite bool "'s list"
  | TransportCall "'s list"

record 's world =
  files :: "string \<Rightarrow> cache_file"
  trace :: "'s event list"

primrec transportCalls :: "'s event list \<Rightarrow> 's list list" where
  "transportCalls [] = []"
| "transportCalls (e # es) =
     (case e of TransportCall p \<Rightarrow> p # transportCalls es | _ \<Rightarrow> transportCalls es)"

primrec auditWrites :: "'s event list \<Rightarrow> 's list list" where
  "auditWrites [] = []"
| "auditWrites (e # es) =
     (case e of AuditWrite d p \<Rightarrow> p # auditWrites es | _ \<Rightarrow> auditWrites es)"

primrec ledgerWrites :: "'s event list \<Rightarrow> (string \<times> workflow_id list) list" where
  "ledgerWrites [] = []"
| "ledgerWrites (e # es) =
     (case e of LedgerWrite f ids \<Rightarrow> (f, ids) # ledgerWrites es | _ \<Rightarrow> ledgerWrites es)"

primrec ledgerReads :: "'s event list \<Rightarrow> string list" where
  "ledgerReads [] = []"
| "ledgerReads (e # es) =
     (case e of LedgerRead f \<Rightarrow> f # ledgerReads es | _ \<Rightarrow> ledgerReads es)"

text \<open>
  The Transport calls a later state \<open>w'\<close> has made beyond those of an earlier state \<open>w\<close>.
\<close>

definition newCalls :: "'s world \<Rightarrow> 's world \<Rightarrow> 's list list" where
  "newCalls w w' = drop (length (transportCalls (trace w))) (transportCalls (trace w'))"

section \<open>The delivery ledger: WorkflowCache\<close>

text \<open>\<^verbatim>\<open>JSON.parse(readFileSync(this._cacheFilePath, 'utf8')).sent\<close>\<close>

definition readCache :: "cache_file \<Rightarrow> error + workflow_id list" where
  "readCache f =
     (case f of Missing \<Rightarrow> Inl CacheReadError
              | Corrupt \<Rightarrow> Inl CacheParseError
              | SentFile sent \<Rightarrow> Inr sent)"

text \<open>
  \<^verbatim>\<open>[...new Set(xs)]\<close>: a JavaScript \<^verbatim>\<open>Set\<close> keeps the first occurrence of each value, in
  insertion order.
\<close>

definition setOrder :: "'a list \<Rightarrow> 'a list" where
  "setOrder xs = fold (\<lambda>x acc. if x \<in> set acc then acc else acc @ [x]) xs []"

text \<open>
  \<^verbatim>\<open>ensureCacheExists\<close>, all that the constructor of \<^verbatim>\<open>WorkflowCache\<close> does to the file: it
  writes an empty ledger when no file exists, and leaves an existing file alone. A ledger
  file is named by its file name inside the \<^verbatim>\<open>cache\<close> directory.
\<close>

definition ensureCacheExists :: "string \<Rightarrow> 's world \<Rightarrow> 's world" where
  "ensureCacheExists path w =
     (if files w path = Missing
      then w\<lparr>files := (files w)(path := SentFile []),
             trace := trace w @ [LedgerWrite path []]\<rparr>
      else w)"

definition newWorkflowCache :: "string \<Rightarrow> 's world \<Rightarrow> string \<times> 's world" where
  "newWorkflowCache filename w = (filename, ensureCacheExists filename w)"

text \<open>
  \<^verbatim>\<open>hasBeenSent\<close>: the \<^verbatim>\<open>try\<close> block reads and parses the file and answers
  \<^verbatim>\<open>data.sent.includes(workflowId)\<close>; the \<^verbatim>\<open>catch\<close> block answers \<^verbatim>\<open>false\<close>. One call is one
  read of the file; the callers below record it in the trace.
\<close>

definition hasBeenSent :: "string \<Rightarrow> workflow_id \<Rightarrow> 's world \<Rightarrow> bool" where
  "hasBeenSent path workflowId w =
     (case readCache (files w path) of
        Inr sent \<Rightarrow> workflowId \<in> set sent
      | Inl e \<Rightarrow> False)"

text \<open>
  \<^verbatim>\<open>markAsSent\<close>: the \<^verbatim>\<open>try\<close> block reads and parses the file, and writes the file again
  with the array \<^verbatim>\<open>[...new Set([...data.sent, ...workflowIds])]\<close>; the \<^verbatim>\<open>catch\<close> block rethrows.
\<close>

definition markAsSent :: "string \<Rightarrow> workflow_id list \<Rightarrow> 's world \<Rightarrow> (error + unit) \<times> 's world" where
  "markAsSent path workflowIds w =
     (case readCache (files w path) of
        Inl e \<Rightarrow> (Inl e, w\<lparr>trace := trace w @ [LedgerRead path]\<rparr>)
      | Inr sent \<Rightarrow>
          (let newSent = setOrder (sent @ workflowIds)
           in (Inr (),
               w\<lparr>files := (files w)(path := SentFile newSent),
                 trace := trace w @ [LedgerRead path, LedgerWrite path newSent]\<rparr>)))"

text \<open>\<^verbatim>\<open>filterNewWorkflows\<close>: \<^verbatim>\<open>workflowIds.filter(id => !this.hasBeenSent(id))\<close>\<close>

definition filterNewWorkflows :: "string \<Rightarrow> workflow_id list \<Rightarrow> 's world \<Rightarrow> workflow_id list" where
  "filterNewWorkflows path workflowIds w = filter (\<lambda>i. \<not> hasBeenSent path i w) workflowIds"

section \<open>The coordinator: DatadogService\<close>

text \<open>
  The fields of a \<^verbatim>\<open>DatadogService\<close>. \<open>cacheFilePath\<close> is the file of its \<^verbatim>\<open>workflowCache\<close>.
  \<open>metricsApi\<close> is the Transport: its answer to a payload may depend on the payloads it
  was called with before (as a mock with \<^verbatim>\<open>mockRejectedValueOnce\<close> does). \<open>batchSize\<close> is a
  natural number; the source's type \<^verbatim>\<open>number\<close> also admits negative values and fractions,
  which are not modelled.
\<close>

record 's service =
  dryRun :: bool
  batchSize :: nat
  cacheFilePath :: string
  metricsApi :: "'s list list \<Rightarrow> 's list \<Rightarrow> api_result"

record options =
  optDryRun :: "bool option"
  optBatchSize :: "nat option"

record env =
  nodeEnvTest :: bool
  ddApiKey :: "string option"

text \<open>The file name chosen by the constructor from the mode and \<^verbatim>\<open>NODE_ENV === "test"\<close>.\<close>

definition cacheFilename :: "bool \<Rightarrow> bool \<Rightarrow> string" where
  "cacheFilename dry test =
     (if test
      then (if dry then ''sent-workflows-dry-run-test.json'' else ''sent-workflows-test.json'')
      else (if dry then ''sent-workflows-dry-run.json'' else ''sent-workflows.json''))"

text \<open>
  The constructor. The ledger is created before the API key is checked, so a constructor
  that throws has already created the file. The Transport client built from the key is
  the parameter \<open>api\<close>.
\<close>

definition newDatadogService ::
  "options option \<Rightarrow> env \<Rightarrow> ('s list list \<Rightarrow> 's list \<Rightarrow> api_result) \<Rightarrow> 's world
     \<Rightarrow> (error + 's service) \<times> 's world" where
  "newDatadogService opts e api w =
     (let dry = (case opts of None \<Rightarrow> False
                  | Some os \<Rightarrow> (case optDryRun os of None \<Rightarrow> False | Some b \<Rightarrow> b));
          bs = (case opts of None \<Rightarrow> 10
                  | Some os \<Rightarrow> (case optBatchSize os of None \<Rightarrow> 10 | Some n \<Rightarrow> n));
          (path, w1) = newWorkflowCache (cacheFilename dry (nodeEnvTest e)) w
      in if ddApiKey e = None \<or> ddApiKey e = Some []
         then (Inl MissingApiKey, w1)
         else (Inr \<lparr>dryRun = dry, batchSize = bs, cacheFilePath = path, metricsApi = api\<rparr>, w1))"

text \<open>
  \<^verbatim>\<open>new Date(t * 1000).toISOString()\<close> returns a string when \<^verbatim>\<open>t * 1000\<close> is finite and at most
  \<^verbatim>\<open>8.64e15\<close> in absolute value, and throws a \<^verbatim>\<open>RangeError\<close> otherwise: on \<^verbatim>\<open>NaN\<close>, on an
  infinity, and on a time outside the range of a \<^verbatim>\<open>Date\<close>.
\<close>

definition validTime :: "js_number \<Rightarrow> bool" where
  "validTime t = (case t of Num q \<Rightarrow> \<bar>q * 1000\<bar> \<le> 8640000000000000 | _ \<Rightarrow> False)"

text \<open>
  The line that \<^verbatim>\<open>logMetricPayload\<close> prints for one point:
  \<^verbatim>\<open>if (point.timestamp !== undefined && point.value !== undefined)\<close> it formats the timestamp
  with \<^verbatim>\<open>toISOString\<close>, and it prints nothing for the point otherwise. \<open>pointLogs p\<close> says that
  this does not throw.
\<close>

definition pointLogs :: "metric_point \<Rightarrow> bool" where
  "pointLogs p =
     (case timestamp p of None \<Rightarrow> True
      | Some t \<Rightarrow> (case pointValue p of None \<Rightarrow> True | Some v \<Rightarrow> validTime t))"

text \<open>
  \<open>payloadLogs payload\<close>: the two nested \<^verbatim>\<open>forEach\<close> loops of \<^verbatim>\<open>logMetricPayload\<close>, over the series
  of the payload and the points of each series, run to their end.
\<close>

definition payloadLogs :: "metric_series list \<Rightarrow> bool" where
  "payloadLogs payload = list_all (\<lambda>series. list_all pointLogs (points series)) payload"

text \<open>
  \<^verbatim>\<open>logMetricPayload\<close> collects the lines that print the payload, with a banner line in
  dry-run mode, and then writes them to one log file named after the current time. When
  the formatting of a timestamp throws, the \<^verbatim>\<open>RangeError\<close> leaves the method before
  \<^verbatim>\<open>writeFileSync\<close> is reached, and no file is written.
\<close>

definition logMetricPayload ::
  "metric_series service \<Rightarrow> metric_series list \<Rightarrow> metric_series world
     \<Rightarrow> (error + unit) \<times> metric_series world" where
  "logMetricPayload svc payload w =
     (if payloadLogs payload
      then (Inr (), w\<lparr>trace := trace w @ [AuditWrite (dryRun svc) payload]\<rparr>)
      else (Inl InvalidTimeValue, w))"

text \<open>\<^verbatim>\<open>xs.slice(i, j)\<close> for natural numbers \<open>i \<le> j\<close>.\<close>

definition slice :: "nat \<Rightarrow> nat \<Rightarrow> 'a list \<Rightarrow> 'a list" where
  "slice i j xs = drop i (take j xs)"

text \<open>
  Step 2 of \<^verbatim>\<open>submitMetrics\<close>:
  \<^verbatim>\<open>payload.series.map((series, index) => ({ payload: series, workflowId: workflowIds[index] }))\<close>.
  It is only reached when both arrays have the same length.
\<close>

definition pairUp :: "'s list \<Rightarrow> workflow_id list \<Rightarrow> ('s \<times> workflow_id) list" where
  "pairUp series workflowIds =
     map (\<lambda>index. (series ! index, workflowIds ! index)) [0..<length series]"

text \<open>
  The body of the \<^verbatim>\<open>for\<close> loop of \<^verbatim>\<open>submitMetrics\<close> for one window \<open>batch\<close> (steps 4 and 5,
  the audit log, and the \<^verbatim>\<open>try\<close>/\<^verbatim>\<open>catch\<close>). \<open>Inr ()\<close> means that the loop goes on to the next
  window, \<open>Inl e\<close> that \<open>e\<close> is thrown out of \<^verbatim>\<open>submitMetrics\<close>. The call of \<^verbatim>\<open>logMetricPayload\<close>
  stands before the \<^verbatim>\<open>try\<close>, so what it throws leaves \<^verbatim>\<open>submitMetrics\<close> before the test of
  the mode, the Transport call and \<^verbatim>\<open>markAsSent\<close>. \<^verbatim>\<open>markAsSent\<close> is inside the \<^verbatim>\<open>try\<close>; what it
  throws is an \<^verbatim>\<open>Error\<close>, so the \<^verbatim>\<open>catch\<close> rethrows it unchanged.
\<close>

definition processBatch ::
  "metric_series service \<Rightarrow> (metric_series \<times> workflow_id) list \<Rightarrow> metric_series world
     \<Rightarrow> (error + unit) \<times> metric_series world" where
  "processBatch svc batch w =
     (let newWorkflowPairs = filter (\<lambda>pair. \<not> hasBeenSent (cacheFilePath svc) (snd pair) w) batch;
          w1 = w\<lparr>trace := trace w @ map (\<lambda>pair. LedgerRead (cacheFilePath svc)) batch\<rparr>
      in if newWorkflowPairs = [] then (Inr (), w1)
         else
           (let batchPayload = map fst newWorkflowPairs
            in case logMetricPayload svc batchPayload w1 of
                 (Inl e, w2) \<Rightarrow> (Inl e, w2)
               | (Inr u, w2) \<Rightarrow>
                   if \<not> dryRun svc
                   then
                     (let w3 = w2\<lparr>trace := trace w2 @ [TransportCall batchPayload]\<rparr>
                      in case metricsApi svc (transportCalls (trace w2)) batchPayload of
                           Resolved \<Rightarrow> markAsSent (cacheFilePath svc) (map snd newWorkflowPairs) w3
                         | RejectedError m \<Rightarrow> (Inl (ApiError m), w3)
                         | RejectedOther \<Rightarrow> (Inl UnknownSubmitError, w3))
                   else markAsSent (cacheFilePath svc) (map snd newWorkflowPairs) w2))"

text \<open>
  The \<^verbatim>\<open>for\<close> loop: \<^verbatim>\<open>for (let i = 0; i < paired.length; i += this.batchSize)\<close>. With
  \<^verbatim>\<open>batchSize\<close> zero and a pair left, the loop never ends; not returning is the value
  \<open>None\<close>.
\<close>

partial_function (option) submitLoop ::
  "metric_series service \<Rightarrow> (metric_series \<times> workflow_id) list \<Rightarrow> nat \<Rightarrow> metric_series world
     \<Rightarrow> ((error + unit) \<times> metric_series world) option" where
  "submitLoop svc paired i w =
     (if i < length paired
      then (case processBatch svc (slice i (i + batchSize svc) paired) w of
              (Inl e, w') \<Rightarrow> Some (Inl e, w')
            | (Inr u, w') \<Rightarrow> submitLoop svc paired (i + batchSize svc) w')
      else Some (Inr (), w))"

declare submitLoop.simps [code]

definition submitMetrics ::
  "metric_series service \<Rightarrow> metric_series list \<Rightarrow> workflow_id list \<Rightarrow> metric_series world
     \<Rightarrow> ((error + unit) \<times> metric_series world) option" where
  "submitMetrics svc series workflowIds w =
     (if length series \<noteq> length workflowIds
      then Some (Inl (PairingMismatch (length series) (length workflowIds)), w)
      else submitLoop svc (pairUp series workflowIds) 0 w)"

subsection \<open>The positional-slice version of submitMetrics\<close>

text \<open>
  The earlier version of the method filters the identifier list first and then walks the
  filtered list in steps of \<^verbatim>\<open>batchSize\<close>, taking
  \<^verbatim>\<open>payload.series.slice(i, i + this.batchSize)\<close> as the payload of the batch
  \<^verbatim>\<open>newWorkflows.slice(i, i + this.batchSize)\<close>. It does not compare the lengths of its two
  arguments. Here too the call of \<^verbatim>\<open>logMetricPayload\<close> stands before the \<^verbatim>\<open>try\<close>.
\<close>

definition processPositional ::
  "metric_series service \<Rightarrow> metric_series list \<Rightarrow> workflow_id list \<Rightarrow> metric_series world
     \<Rightarrow> (error + unit) \<times> metric_series world" where
  "processPositional svc batchPayload batchWorkflows w =
     (case logMetricPayload svc batchPayload w of
        (Inl e, w2) \<Rightarrow> (Inl e, w2)
      | (Inr u, w2) \<Rightarrow>
          if \<not> dryRun svc
          then
            (let w3 = w2\<lparr>trace := trace w2 @ [TransportCall batchPayload]\<rparr>
             in case metricsApi svc (transportCalls (trace w2)) batchPayload of
                  Resolved \<Rightarrow> markAsSent (cacheFilePath svc) batchWorkflows w3
                | RejectedError m \<Rightarrow> (Inl (ApiError m), w3)
                | RejectedOther \<Rightarrow> (Inl UnknownSubmitError, w3))
          else markAsSent (cacheFilePath svc) batchWorkflows w2)"

partial_function (option) positionalLoop ::
  "metric_series service \<Rightarrow> metric_series list \<Rightarrow> workflow_id list \<Rightarrow> nat \<Rightarrow> metric_series world
     \<Rightarrow> ((error + unit) \<times> metric_series world) option" where
  "positionalLoop svc series newWorkflows i w =
     (if i < length newWorkflows
      then (case processPositional svc (slice i (i + batchSize svc) series)
                   (slice i (i + batchSize svc) newWorkflows) w of
              (Inl e, w') \<Rightarrow> Some (Inl e, w')
            | (Inr u, w') \<Rightarrow> positionalLoop svc series newWorkflows (i + batchSize svc) w')
      else Some (Inr (), w))"

declare positionalLoop.simps [code]

definition submitMetricsPositional ::
  "metric_series service \<Rightarrow> metric_series list \<Rightarrow> workflow_id list \<Rightarrow> metric_series world
     \<Rightarrow> ((error + unit) \<times> metric_series world) option" where
  "submitMetricsPositional svc series workflowIds w =
     (let newWorkflows = filterNewWorkflows (cacheFilePath svc) workflowIds w;
          w1 = w\<lparr>trace := trace w @ map (\<lambda>i. LedgerRead (cacheFilePath svc)) workflowIds\<rparr>
      in if newWorkflows = [] then Some (Inr (), w1)
         else positionalLoop svc series newWorkflows 0 w1)"

section \<open>Windows and sub-batches\<close>

text \<open>
  The consecutive windows of at most \<open>n\<close> elements of a list, in order: the slices
  \<^verbatim>\<open>paired.slice(i, i + n)\<close> that the loop visits for \<open>i = 0, n, 2n, ...\<close>.
\<close>

function windows :: "nat \<Rightarrow> 'a list \<Rightarrow> 'a list list" where
  "windows n xs = (if n = 0 \<or> xs = [] then [] else take n xs # windows n (drop n xs))"
  by pat_completeness auto
termination
  by (relation "measure (\<lambda>(n, xs). length xs)") auto

declare windows.simps [simp del]

text \<open>The loop body run over a list of windows, one after the other, until one throws.\<close>

fun runWindows ::
  "metric_series service \<Rightarrow> (metric_series \<times> workflow_id) list list \<Rightarrow> metric_series world
     \<Rightarrow> (error + unit) \<times> metric_series world" where
  "runWindows svc [] w = (Inr (), w)"
| "runWindows svc (win # wins) w =
     (case processBatch svc win w of
        (Inl e, w') \<Rightarrow> (Inl e, w')
      | (Inr u, w') \<Rightarrow> runWindows svc wins w')"

text \<open>
  The sub-batch of each window, for the windows whose sub-batch is not empty: the pairs of
  the window whose identifier is not delivered when the window is reached, that is,
  neither delivered at the start (\<open>sent\<close>) nor an identifier of an earlier window.
\<close>

fun subBatches ::
  "(workflow_id \<Rightarrow> bool) \<Rightarrow> ('s \<times> workflow_id) list list \<Rightarrow> ('s \<times> workflow_id) list list" where
  "subBatches sent [] = []"
| "subBatches sent (win # wins) =
     (let new = filter (\<lambda>pair. \<not> sent (snd pair)) win
      in (if new = [] then [] else [new])
           @ subBatches (\<lambda>x. sent x \<or> x \<in> set (map snd win)) wins)"

text \<open>
  The sub-batch of a window in a state: step 4 of \<^verbatim>\<open>submitMetrics\<close>, the pairs of the window
  whose identifier \<^verbatim>\<open>hasBeenSent\<close> does not find.
\<close>

definition subBatch :: "'s service \<Rightarrow> 's world \<Rightarrow> ('s \<times> workflow_id) list \<Rightarrow> ('s \<times> workflow_id) list" where
  "subBatch svc w batch = filter (\<lambda>pair. \<not> hasBeenSent (cacheFilePath svc) (snd pair) w) batch"

section \<open>Example states\<close>

text \<open>
  States and services for the concrete runs below: a file system with no ledger file, one
  whose files are all unreadable, a Transport that always resolves, and a live service on
  the ledger file of the test suite.
\<close>

definition freshWorld :: "'s world" where
  "freshWorld = \<lparr>files = (\<lambda>path. Missing), trace = []\<rparr>"

definition alwaysOk :: "'s list list \<Rightarrow> 's list \<Rightarrow> api_result" where
  "alwaysOk calls payload = Resolved"

definition liveService :: "nat \<Rightarrow> ('s list list \<Rightarrow> 's list \<Rightarrow> api_result) \<Rightarrow> 's service" where
  "liveService n api = \<lparr>dryRun = False, batchSize = n, cacheFilePath = ''sent-workflows-test.json'', metricsApi = api\<rparr>"

definition corruptWorld :: "'s world" where
  "corruptWorld = \<lparr>files = (\<lambda>path. Corrupt), trace = []\<rparr>"

text \<open>A file system whose only file is one ledger with the given content.\<close>

definition ledgerWorld :: "string \<Rightarrow> workflow_id list \<Rightarrow> 's world" where
  "ledgerWorld path sent = \<lparr>files = (\<lambda>p. Missing)(path := SentFile sent), trace = []\<rparr>"



text \<open>
  A Transport that rejects its call number \<open>n\<close> (counted from zero) with an \<^verbatim>\<open>Error\<close> of the
  given message and accepts every other call, as a mock with \<^verbatim>\<open>mockRejectedValueOnce\<close> does.
\<close>

definition failOnCall :: "nat \<Rightarrow> string \<Rightarrow> 's list list \<Rightarrow> 's list \<Rightarrow> api_result" where
  "failOnCall n msg calls payload = (if length calls = n then RejectedError msg else Resolved)"

text \<open>
  The series of the test suite: one point of the metric \<^verbatim>\<open>ci.workflow.duration\<close> with a
  timestamp in seconds and a value in minutes. \<open>seriesNaN\<close> is the series that
  \<^verbatim>\<open>transformToDatadogMetric\<close> builds from a record whose \<^verbatim>\<open>created_at\<close> is not a date:
  \<^verbatim>\<open>parseTimestamp\<close> gives \<^verbatim>\<open>NaN\<close> for it.
\<close>

definition standardTags :: "string list" where
  "standardTags = [''env:ci'', ''project_slug:gh/HnryNZ/hnry-rails'', ''branch:master'',
     ''workflow:build_test_deploy'', ''status:success'']"

definition durationSeries :: "js_number \<Rightarrow> rat \<Rightarrow> metric_series" where
  "durationSeries t v =
     \<lparr>metric = ''ci.workflow.duration'', seriesType = Some 3,
      points = [\<lparr>timestamp = Some t, pointValue = Some (Num v)\<rparr>],
      seriesUnit = Some ''minutes'', tags = Some standardTags\<rparr>"

definition series155 :: metric_series where
  "series155 = durationSeries (Num 1706054675) (31 / 2)"

definition series165 :: metric_series where
  "series165 = durationSeries (Num 1706054676) (33 / 2)"

definition series175 :: metric_series where
  "series175 = durationSeries (Num 1706054677) (35 / 2)"

definition series185 :: metric_series where
  "series185 = durationSeries (Num 1706054678) (37 / 2)"

definition seriesNaN :: metric_series where
  "seriesNaN = durationSeries NaN (33 / 2)"

section \<open>Basic facts\<close>

subsection \<open>The example series\<close>

lemma durationSeries_logs: "list_all pointLogs (points (durationSeries t v)) = validTime t"
  by (simp add: durationSeries_def pointLogs_def)

lemma example_series_log [simp]:
  "list_all pointLogs (points series155)" "list_all pointLogs (points series165)"
  "list_all pointLogs (points series175)" "list_all pointLogs (points series185)"
  "\<not> list_all pointLogs (points seriesNaN)"
  by (simp_all add: durationSeries_logs validTime_def
        series155_def series165_def series175_def series185_def seriesNaN_def)

lemma example_series_distinct:
  "series155 \<noteq> series165" "series155 \<noteq> series175" "series155 \<noteq> series185"
  "series165 \<noteq> series175" "series165 \<noteq> series185" "series175 \<noteq> series185"
  by (simp_all add: durationSeries_def series155_def series165_def series175_def series185_def)

subsection \<open>Traces, sets and pairs\<close>

lemma transportCalls_append: "transportCalls (es @ fs) = transportCalls es @ transportCalls fs"
  by (induction es) (auto split: event.splits)

lemma transportCalls_reads: "transportCalls (map (\<lambda>x. LedgerRead (f x)) xs) = []"
  by (induction xs) auto

lemma setOrder_fold:
  "set (fold (\<lambda>x acc. if x \<in> set acc then acc else acc @ [x]) xs acc) = set acc \<union> set xs"
  by (induction xs arbitrary: acc) auto

lemma distinct_fold:
  "distinct acc \<Longrightarrow> distinct (fold (\<lambda>x acc. if x \<in> set acc then acc else acc @ [x]) xs acc)"
  by (induction xs arbitrary: acc) auto

lemma set_setOrder: "set (setOrder xs) = set xs"
  by (simp add: setOrder_def setOrder_fold)

lemma distinct_setOrder: "distinct (setOrder xs)"
  by (simp add: setOrder_def distinct_fold)

lemma fold_absorb:
  "set xs \<subseteq> set acc \<Longrightarrow> fold (\<lambda>x acc. if x \<in> set acc then acc else acc @ [x]) xs acc = acc"
  by (induction xs arbitrary: acc) auto

lemma fold_distinct:
  "distinct (acc @ ys) \<Longrightarrow> fold (\<lambda>x acc. if x \<in> set acc then acc else acc @ [x]) ys acc = acc @ ys"
  by (induction ys arbitrary: acc) auto

lemma setOrder_distinct_append:
  "distinct ys \<Longrightarrow> set xs \<subseteq> set ys \<Longrightarrow> setOrder (ys @ xs) = ys"
  using fold_distinct[of "[]" ys] by (simp add: setOrder_def fold_absorb)

lemma pairUp_zip: "length series = length ids \<Longrightarrow> pairUp series ids = zip series ids"
  by (auto simp: pairUp_def intro!: nth_equalityI)

subsection \<open>The loop visits the windows in order\<close>

lemma slice_take_drop: "slice i (i + n) xs = take n (drop i xs)"
  by (simp add: slice_def take_drop add.commute)

lemma windows_Nil: "windows n [] = []"
  by (subst windows.simps) simp

lemma windows_zero: "windows 0 xs = []"
  by (subst windows.simps) simp

lemma windows_step: "0 < n \<Longrightarrow> xs \<noteq> [] \<Longrightarrow> windows n xs = take n xs # windows n (drop n xs)"
  by (subst windows.simps) simp

lemma submitLoop_windows:
  assumes "0 < batchSize svc"
  shows "submitLoop svc paired i w = Some (runWindows svc (windows (batchSize svc) (drop i paired)) w)"
proof (induction "length paired - i" arbitrary: i w rule: less_induct)
  case less
  show ?case
  proof (cases "i < length paired")
    case False
    then show ?thesis
      by (subst submitLoop.simps) (simp add: windows_Nil)
  next
    case True
    have win: "windows (batchSize svc) (drop i paired)
        = take (batchSize svc) (drop i paired) # windows (batchSize svc) (drop (i + batchSize svc) paired)"
      using True assms by (simp add: windows_step add.commute)
    have step: "\<And>w'. submitLoop svc paired (i + batchSize svc) w'
        = Some (runWindows svc (windows (batchSize svc) (drop (i + batchSize svc) paired)) w')"
      using True assms by (intro less) arith
    show ?thesis
      by (subst submitLoop.simps) (simp add: True win step slice_take_drop split: prod.splits sum.splits)
  qed
qed

lemma submitMetrics_windows:
  assumes "0 < batchSize svc" "length series = length ids"
  shows "submitMetrics svc series ids w = Some (runWindows svc (windows (batchSize svc) (zip series ids)) w)"
  using assms by (simp add: submitMetrics_def submitLoop_windows pairUp_zip)

text \<open>With \<^verbatim>\<open>batchSize\<close> zero and a pair left to visit, the loop does not return.\<close>

lemma submitLoop_returns_aux:
  assumes "submitLoop svc paired i w = Some y"
  shows "batchSize svc = 0 \<longrightarrow> \<not> i < length paired"
proof (rule submitLoop.raw_induct[where P = "\<lambda>svc paired i w y. batchSize svc = 0 \<longrightarrow> \<not> i < length paired", OF _ assms])
  fix f :: "metric_series service \<Rightarrow> (metric_series \<times> workflow_id) list \<Rightarrow> nat \<Rightarrow> metric_series world
    \<Rightarrow> ((error + unit) \<times> metric_series world) option"
  fix svc paired i w y
  assume IH: "\<And>svc paired i w y. f svc paired i w = Some y \<Longrightarrow> batchSize svc = 0 \<longrightarrow> \<not> i < length paired"
    and eq: "(if i < length paired
      then case processBatch svc (slice i (i + batchSize svc) paired) w of
           (Inl e, w') \<Rightarrow> Some (Inl e, w')
           | (Inr u, w') \<Rightarrow> f svc paired (i + batchSize svc) w'
      else Some (Inr (), w)) = Some y"
  show "batchSize svc = 0 \<longrightarrow> \<not> i < length paired"
  proof (intro impI notI)
    assume z: "batchSize svc = 0" and lt: "i < length paired"
    have "processBatch svc (slice i (i + batchSize svc) paired) w = (Inr (), w\<lparr>trace := trace w @ []\<rparr>)"
      using z by (simp add: slice_def processBatch_def)
    with eq lt z have "f svc paired i (w\<lparr>trace := trace w @ []\<rparr>) = Some y" by simp
    from IH[OF this] z lt show False by simp
  qed
qed

lemma submitLoop_diverges:
  "batchSize svc = 0 \<Longrightarrow> i < length paired \<Longrightarrow> submitLoop svc paired i w = None"
  using submitLoop_returns_aux[of svc paired i w] by (cases "submitLoop svc paired i w") auto

lemma submitLoop_Some:
  assumes "submitLoop svc paired i w = Some y"
  shows "y = runWindows svc (windows (batchSize svc) (drop i paired)) w"
proof (cases "0 < batchSize svc")
  case True
  with assms show ?thesis by (simp add: submitLoop_windows)
next
  case False
  with submitLoop_returns_aux[OF assms] have "\<not> i < length paired" by simp
  with assms show ?thesis
    by (subst (asm) submitLoop.simps) (use False in \<open>simp add: windows_zero\<close>)
qed

lemma submitMetrics_Some:
  assumes "submitMetrics svc series ids w = Some y" "length series = length ids"
  shows "y = runWindows svc (windows (batchSize svc) (zip series ids)) w"
  using assms submitLoop_Some[of svc "zip series ids" 0 w y]
  by (simp add: submitMetrics_def pairUp_zip)

lemma hasBeenSent_SentFile: "files w path = SentFile sent \<Longrightarrow> hasBeenSent path x w = (x \<in> set sent)"
  by (simp add: hasBeenSent_def readCache_def)

lemma hasBeenSent_unreadable: "files w path = Missing \<or> files w path = Corrupt \<Longrightarrow> \<not> hasBeenSent path x w"
  by (auto simp: hasBeenSent_def readCache_def)

lemma hasBeenSent_files: "files w' p = files w p \<Longrightarrow> hasBeenSent p x w' = hasBeenSent p x w"
  by (simp add: hasBeenSent_def)

lemma markAsSent_SentFile:
  "files w path = SentFile sent \<Longrightarrow>
   markAsSent path ids w =
     (Inr (), w\<lparr>files := (files w)(path := SentFile (setOrder (sent @ ids))),
               trace := trace w @ [LedgerRead path, LedgerWrite path (setOrder (sent @ ids))]\<rparr>)"
  by (simp add: markAsSent_def readCache_def Let_def)


lemma markAsSent_other: "markAsSent path ids w = (r, w') \<Longrightarrow> p \<noteq> path \<Longrightarrow> files w' p = files w p"
  by (cases "files w path") (auto simp: markAsSent_def readCache_def Let_def)

lemma markAsSent_calls: "markAsSent path ids w = (r, w') \<Longrightarrow> transportCalls (trace w') = transportCalls (trace w)"
  by (cases "files w path") (auto simp: markAsSent_def readCache_def Let_def transportCalls_append)

lemma markAsSent_sent:
  "markAsSent path ids w = (Inr u, w') \<Longrightarrow> hasBeenSent path x w' = (hasBeenSent path x w \<or> x \<in> set ids)"
  by (cases "files w path") (auto simp: markAsSent_def readCache_def Let_def hasBeenSent_def set_setOrder)

lemma markAsSent_fail: "markAsSent path ids w = (Inl e, w') \<Longrightarrow> files w' = files w"
  by (cases "files w path") (auto simp: markAsSent_def readCache_def Let_def)

lemma markAsSent_mono: "markAsSent path ids w = (r, w') \<Longrightarrow> hasBeenSent p x w \<Longrightarrow> hasBeenSent p x w'"
proof (cases "p = path")
  case False
  assume "markAsSent path ids w = (r, w')"
  from markAsSent_other[OF this False] show "hasBeenSent p x w \<Longrightarrow> hasBeenSent p x w'"
    by (simp add: hasBeenSent_def)
next
  case True
  assume m: "markAsSent path ids w = (r, w')" and h: "hasBeenSent p x w"
  show "hasBeenSent p x w'"
  proof (cases r)
    case (Inl e)
    with m markAsSent_fail[of path ids w e w'] h show ?thesis by (simp add: hasBeenSent_def)
  next
    case (Inr u)
    with m markAsSent_sent[of path ids w u w' x] h True show ?thesis by simp
  qed
qed

subsection \<open>The loop body\<close>

lemma auditWrites_append: "auditWrites (es @ fs) = auditWrites es @ auditWrites fs"
  by (induction es) (auto split: event.splits)

lemma processBatch_skip:
  "filter (\<lambda>pair. \<not> hasBeenSent (cacheFilePath svc) (snd pair) w) batch = [] \<Longrightarrow>
   processBatch svc batch w
     = (Inr (), w\<lparr>trace := trace w @ map (\<lambda>pair. LedgerRead (cacheFilePath svc)) batch\<rparr>)"
  by (simp add: processBatch_def)

lemma processBatch_logfail:
  "filter (\<lambda>pair. \<not> hasBeenSent (cacheFilePath svc) (snd pair) w) batch = new \<Longrightarrow> new \<noteq> [] \<Longrightarrow>
   \<not> payloadLogs (map fst new) \<Longrightarrow>
   processBatch svc batch w
     = (Inl InvalidTimeValue, w\<lparr>trace := trace w @ map (\<lambda>pair. LedgerRead (cacheFilePath svc)) batch\<rparr>)"
  by (simp add: processBatch_def logMetricPayload_def Let_def)

lemma processBatch_dry:
  "filter (\<lambda>pair. \<not> hasBeenSent (cacheFilePath svc) (snd pair) w) batch = new \<Longrightarrow> new \<noteq> [] \<Longrightarrow>
   payloadLogs (map fst new) \<Longrightarrow> dryRun svc \<Longrightarrow>
   processBatch svc batch w
     = markAsSent (cacheFilePath svc) (map snd new)
         (w\<lparr>trace := trace w @ map (\<lambda>pair. LedgerRead (cacheFilePath svc)) batch
                @ [AuditWrite True (map fst new)]\<rparr>)"
  by (simp add: processBatch_def logMetricPayload_def Let_def)

lemma processBatch_live_ok:
  "filter (\<lambda>pair. \<not> hasBeenSent (cacheFilePath svc) (snd pair) w) batch = new \<Longrightarrow> new \<noteq> [] \<Longrightarrow>
   payloadLogs (map fst new) \<Longrightarrow>
   \<not> dryRun svc \<Longrightarrow> metricsApi svc (transportCalls (trace w)) (map fst new) = Resolved \<Longrightarrow>
   processBatch svc batch w
     = markAsSent (cacheFilePath svc) (map snd new)
         (w\<lparr>trace := trace w @ map (\<lambda>pair. LedgerRead (cacheFilePath svc)) batch
                @ [AuditWrite False (map fst new), TransportCall (map fst new)]\<rparr>)"
  by (simp add: processBatch_def logMetricPayload_def Let_def transportCalls_append transportCalls_reads)

lemma processBatch_live_rejected:
  "filter (\<lambda>pair. \<not> hasBeenSent (cacheFilePath svc) (snd pair) w) batch = new \<Longrightarrow> new \<noteq> [] \<Longrightarrow>
   payloadLogs (map fst new) \<Longrightarrow>
   \<not> dryRun svc \<Longrightarrow> metricsApi svc (transportCalls (trace w)) (map fst new) \<noteq> Resolved \<Longrightarrow>
   processBatch svc batch w
     = (Inl (case metricsApi svc (transportCalls (trace w)) (map fst new) of
               RejectedError m \<Rightarrow> ApiError m | _ \<Rightarrow> UnknownSubmitError),
        w\<lparr>trace := trace w @ map (\<lambda>pair. LedgerRead (cacheFilePath svc)) batch
                @ [AuditWrite False (map fst new), TransportCall (map fst new)]\<rparr>)"
  by (cases "metricsApi svc (transportCalls (trace w)) (map fst new)")
     (simp_all add: processBatch_def logMetricPayload_def Let_def transportCalls_append transportCalls_reads)

text \<open>The ways in which the loop body can end.\<close>

lemma processBatch_cases:
  assumes "processBatch svc batch w = (r, w')"
  obtains
    (skip) "filter (\<lambda>pair. \<not> hasBeenSent (cacheFilePath svc) (snd pair) w) batch = []"
      "r = Inr ()" "w' = w\<lparr>trace := trace w @ map (\<lambda>pair. LedgerRead (cacheFilePath svc)) batch\<rparr>"
  | (logfail) "filter (\<lambda>pair. \<not> hasBeenSent (cacheFilePath svc) (snd pair) w) batch \<noteq> []"
      "\<not> payloadLogs (map fst (filter (\<lambda>pair. \<not> hasBeenSent (cacheFilePath svc) (snd pair) w) batch))"
      "r = Inl InvalidTimeValue"
      "w' = w\<lparr>trace := trace w @ map (\<lambda>pair. LedgerRead (cacheFilePath svc)) batch\<rparr>"
  | (mark) w2 where "filter (\<lambda>pair. \<not> hasBeenSent (cacheFilePath svc) (snd pair) w) batch \<noteq> []"
      "files w2 = files w"
      "transportCalls (trace w2) = transportCalls (trace w) @
         (if dryRun svc then []
          else [map fst (filter (\<lambda>pair. \<not> hasBeenSent (cacheFilePath svc) (snd pair) w) batch)])"
      "markAsSent (cacheFilePath svc)
         (map snd (filter (\<lambda>pair. \<not> hasBeenSent (cacheFilePath svc) (snd pair) w) batch)) w2 = (r, w')"
      "dryRun svc \<or> metricsApi svc (transportCalls (trace w))
          (map fst (filter (\<lambda>pair. \<not> hasBeenSent (cacheFilePath svc) (snd pair) w) batch)) = Resolved"
      "payloadLogs (map fst (filter (\<lambda>pair. \<not> hasBeenSent (cacheFilePath svc) (snd pair) w) batch))"
  | (rejected) e where "filter (\<lambda>pair. \<not> hasBeenSent (cacheFilePath svc) (snd pair) w) batch \<noteq> []"
      "\<not> dryRun svc" "r = Inl e" "files w' = files w"
      "metricsApi svc (transportCalls (trace w))
          (map fst (filter (\<lambda>pair. \<not> hasBeenSent (cacheFilePath svc) (snd pair) w) batch)) \<noteq> Resolved"
      "transportCalls (trace w') = transportCalls (trace w) @
          [map fst (filter (\<lambda>pair. \<not> hasBeenSent (cacheFilePath svc) (snd pair) w) batch)]"
      "payloadLogs (map fst (filter (\<lambda>pair. \<not> hasBeenSent (cacheFilePath svc) (snd pair) w) batch))"
proof -
  define new where "new = filter (\<lambda>pair. \<not> hasBeenSent (cacheFilePath svc) (snd pair) w) batch"
  consider "new = []" | "new \<noteq> []" "payloadLogs (map fst new)" "dryRun svc"
    | "new \<noteq> []" "payloadLogs (map fst new)" "\<not> dryRun svc"
      "metricsApi svc (transportCalls (trace w)) (map fst new) = Resolved"
    | "new \<noteq> []" "payloadLogs (map fst new)" "\<not> dryRun svc"
      "metricsApi svc (transportCalls (trace w)) (map fst new) \<noteq> Resolved"
    | "new \<noteq> []" "\<not> payloadLogs (map fst new)"
    by blast
  then show thesis
  proof cases
    case 1
    with assms have "r = Inr ()" "w' = w\<lparr>trace := trace w @ map (\<lambda>pair. LedgerRead (cacheFilePath svc)) batch\<rparr>"
      by (simp_all add: processBatch_skip new_def)
    with 1 show thesis by (intro skip) (simp_all add: new_def)
  next
    case 2
    show thesis
    proof (rule mark)
      show "markAsSent (cacheFilePath svc)
         (map snd (filter (\<lambda>pair. \<not> hasBeenSent (cacheFilePath svc) (snd pair) w) batch))
         (w\<lparr>trace := trace w @ map (\<lambda>pair. LedgerRead (cacheFilePath svc)) batch
                @ [AuditWrite True (map fst new)]\<rparr>) = (r, w')"
        using assms 2 processBatch_dry[OF new_def[symmetric]] by (simp add: new_def)
    qed (use 2 in \<open>simp_all add: new_def transportCalls_append transportCalls_reads\<close>)
  next
    case 3
    show thesis
    proof (rule mark)
      show "markAsSent (cacheFilePath svc)
         (map snd (filter (\<lambda>pair. \<not> hasBeenSent (cacheFilePath svc) (snd pair) w) batch))
         (w\<lparr>trace := trace w @ map (\<lambda>pair. LedgerRead (cacheFilePath svc)) batch
                @ [AuditWrite False (map fst new), TransportCall (map fst new)]\<rparr>) = (r, w')"
        using assms 3 processBatch_live_ok[OF new_def[symmetric]] by (simp add: new_def)
    qed (use 3 in \<open>simp_all add: new_def transportCalls_append transportCalls_reads\<close>)
  next
    case 4
    from assms 4 processBatch_live_rejected[OF new_def[symmetric]]
    have r: "r = Inl (case metricsApi svc (transportCalls (trace w)) (map fst new) of
               RejectedError m \<Rightarrow> ApiError m | _ \<Rightarrow> UnknownSubmitError)"
      and w': "w' = w\<lparr>trace := trace w @ map (\<lambda>pair. LedgerRead (cacheFilePath svc)) batch
                @ [AuditWrite False (map fst new), TransportCall (map fst new)]\<rparr>"
      by simp_all
    show thesis
      by (rule rejected[OF _ _ r]) (use 4 in \<open>simp_all add: w' new_def transportCalls_append transportCalls_reads\<close>)
  next
    case 5
    from assms 5 processBatch_logfail[OF new_def[symmetric]]
    have "r = Inl InvalidTimeValue"
      "w' = w\<lparr>trace := trace w @ map (\<lambda>pair. LedgerRead (cacheFilePath svc)) batch\<rparr>"
      by simp_all
    with 5 show thesis by (intro logfail) (simp_all add: new_def)
  qed
qed

lemma processBatch_other:
  assumes "processBatch svc batch w = (r, w')" "p \<noteq> cacheFilePath svc"
  shows "files w' p = files w p"
  using assms(1)
proof (cases rule: processBatch_cases)
  case (mark w2)
  with markAsSent_other[OF mark(4) assms(2)] show ?thesis by simp
qed simp_all

lemma processBatch_calls:
  assumes "processBatch svc batch w = (r, w')"
  shows "transportCalls (trace w') = transportCalls (trace w) @
     (if subBatch svc w batch = [] \<or> dryRun svc \<or> \<not> payloadLogs (map fst (subBatch svc w batch))
      then [] else [map fst (subBatch svc w batch)])"
  using assms
proof (cases rule: processBatch_cases)
  case skip
  then show ?thesis by (simp add: subBatch_def transportCalls_append transportCalls_reads)
next
  case logfail
  then show ?thesis by (simp add: subBatch_def transportCalls_append transportCalls_reads)
next
  case (mark w2)
  with markAsSent_calls[OF mark(4)] show ?thesis by (simp add: subBatch_def)
next
  case (rejected e)
  then show ?thesis by (simp add: subBatch_def)
qed

lemma processBatch_sent:
  assumes "processBatch svc batch w = (Inr u, w')"
  shows "hasBeenSent (cacheFilePath svc) x w'
           = (hasBeenSent (cacheFilePath svc) x w \<or> x \<in> set (map snd batch))"
  using assms
proof (cases rule: processBatch_cases)
  case skip
  then have "\<forall>pair\<in>set batch. hasBeenSent (cacheFilePath svc) (snd pair) w"
    by (simp add: filter_empty_conv)
  with skip show ?thesis by (auto simp: hasBeenSent_def)
next
  case (mark w2)
  have "hasBeenSent (cacheFilePath svc) x w2 = hasBeenSent (cacheFilePath svc) x w"
    using mark(2) by (simp add: hasBeenSent_def)
  with markAsSent_sent[OF mark(4), of x] show ?thesis by auto
next
  case (rejected e)
  then show ?thesis by simp
next
  case logfail
  then show ?thesis by simp
qed

lemma processBatch_Inr_logs:
  assumes "processBatch svc batch w = (Inr u, w')"
  shows "subBatch svc w batch = [] \<or> payloadLogs (map fst (subBatch svc w batch))"
  using assms by (cases rule: processBatch_cases) (simp_all add: subBatch_def)

lemma processBatch_fail:
  assumes "processBatch svc batch w = (Inl e, w')"
  shows "files w' = files w"
  using assms
proof (cases rule: processBatch_cases)
  case (mark w2)
  with markAsSent_fail[OF mark(4)] show ?thesis by simp
qed simp_all

lemma processBatch_mono:
  assumes "processBatch svc batch w = (r, w')" "hasBeenSent p x w"
  shows "hasBeenSent p x w'"
proof (cases r)
  case (Inl e)
  with assms processBatch_fail[of svc batch w e w'] show ?thesis by (simp add: hasBeenSent_def)
next
  case (Inr u)
  show ?thesis
  proof (cases "p = cacheFilePath svc")
    case True
    with Inr assms processBatch_sent[of svc batch w u w' x] show ?thesis by simp
  next
    case False
    with assms processBatch_other[of svc batch w r w' p] show ?thesis by (simp add: hasBeenSent_def)
  qed
qed

subsection \<open>Running the windows in order\<close>

lemma runWindows_step:
  "runWindows svc (win # wins) w = (r, w') \<Longrightarrow>
     (\<exists>e. processBatch svc win w = (Inl e, w') \<and> r = Inl e)
   \<or> (\<exists>w1. processBatch svc win w = (Inr (), w1) \<and> runWindows svc wins w1 = (r, w'))"
  by (cases "processBatch svc win w") (auto split: sum.splits)


lemma runWindows_mono:
  "runWindows svc wins w = (r, w') \<Longrightarrow> hasBeenSent p x w \<Longrightarrow> hasBeenSent p x w'"
proof (induction wins arbitrary: w)
  case Nil
  then show ?case by simp
next
  case (Cons win wins)
  from runWindows_step[OF Cons.prems(1)] show ?case
  proof (elim disjE exE conjE)
    fix e assume "processBatch svc win w = (Inl e, w')"
    from processBatch_mono[OF this Cons.prems(2)] show ?thesis .
  next
    fix w1 assume a: "processBatch svc win w = (Inr (), w1)" and b: "runWindows svc wins w1 = (r, w')"
    from Cons.IH[OF b processBatch_mono[OF a Cons.prems(2)]] show ?thesis .
  qed
qed

lemma runWindows_sent:
  "runWindows svc wins w = (Inr u, w') \<Longrightarrow>
   hasBeenSent (cacheFilePath svc) x w'
     = (hasBeenSent (cacheFilePath svc) x w \<or> x \<in> set (map snd (concat wins)))"
proof (induction wins arbitrary: w)
  case Nil
  then show ?case by simp
next
  case (Cons win wins)
  from runWindows_step[OF Cons.prems(1)] show ?case
  proof (elim disjE exE conjE)
    fix e assume "Inr u = Inl e"
    then show ?thesis by simp
  next
    fix w1 assume a: "processBatch svc win w = (Inr (), w1)" and b: "runWindows svc wins w1 = (Inr u, w')"
    from Cons.IH[OF b] processBatch_sent[OF a, of x] show ?thesis by auto
  qed
qed

lemma runWindows_calls_dry:
  "runWindows svc wins w = (r, w') \<Longrightarrow> dryRun svc \<Longrightarrow> transportCalls (trace w') = transportCalls (trace w)"
proof (induction wins arbitrary: w)
  case Nil
  then show ?case by simp
next
  case (Cons win wins)
  from runWindows_step[OF Cons.prems(1)] show ?case
  proof (elim disjE exE conjE)
    fix e assume "processBatch svc win w = (Inl e, w')"
    from processBatch_calls[OF this] Cons.prems(2) show ?thesis by simp
  next
    fix w1 assume a: "processBatch svc win w = (Inr (), w1)" and b: "runWindows svc wins w1 = (r, w')"
    from processBatch_calls[OF a] Cons.IH[OF b Cons.prems(2)] Cons.prems(2) show ?thesis by simp
  qed
qed

lemma runWindows_calls:
  assumes "\<not> dryRun svc"
  shows "runWindows svc wins w = (r, w') \<Longrightarrow>
   \<exists>cs. transportCalls (trace w') = transportCalls (trace w) @ cs
      \<and> prefix cs (map (map fst) (subBatches (\<lambda>x. hasBeenSent (cacheFilePath svc) x w) wins))
      \<and> (r = Inr () \<longrightarrow> cs = map (map fst) (subBatches (\<lambda>x. hasBeenSent (cacheFilePath svc) x w) wins))"
proof (induction wins arbitrary: w)
  case Nil
  then show ?case by simp
next
  case (Cons win wins)
  let ?new = "filter (\<lambda>pair. \<not> hasBeenSent (cacheFilePath svc) (snd pair) w) win"
  from runWindows_step[OF Cons.prems(1)] show ?case
  proof (elim disjE exE conjE)
    fix e assume a: "processBatch svc win w = (Inl e, w')" and r: "r = Inl e"
    have "subBatch svc w win \<noteq> []"
      using a by (cases rule: processBatch_cases) (simp_all add: subBatch_def)
    with processBatch_calls[OF a] assms r show ?thesis
      by (cases "payloadLogs (map fst (subBatch svc w win))") (simp_all add: subBatch_def Let_def)
  next
    fix w1 assume a: "processBatch svc win w = (Inr (), w1)" and b: "runWindows svc wins w1 = (r, w')"
    have sent: "(\<lambda>x. hasBeenSent (cacheFilePath svc) x w1)
        = (\<lambda>x. hasBeenSent (cacheFilePath svc) x w \<or> x \<in> set (map snd win))"
      using processBatch_sent[OF a] by (intro ext) simp
    from Cons.IH[OF b] obtain cs where
      cs: "transportCalls (trace w') = transportCalls (trace w1) @ cs"
        "prefix cs (map (map fst) (subBatches (\<lambda>x. hasBeenSent (cacheFilePath svc) x w1) wins))"
        "r = Inr () \<longrightarrow> cs = map (map fst) (subBatches (\<lambda>x. hasBeenSent (cacheFilePath svc) x w1) wins)"
      by blast
    show ?thesis
      using processBatch_calls[OF a] processBatch_Inr_logs[OF a] assms cs
      by (auto simp: sent subBatch_def Let_def)
  qed
qed

subsection \<open>Filling a ledger by repeated writes\<close>

lemma fold_markAsSent:
  "files w path = SentFile sent \<Longrightarrow>
   \<exists>sent'. files (fold (\<lambda>ids w. snd (markAsSent path ids w)) idss w) path = SentFile sent'
      \<and> set sent' = set sent \<union> set (concat idss)"
proof (induction idss arbitrary: w sent)
  case Nil
  then show ?case by simp
next
  case (Cons ids idss)
  have "files (snd (markAsSent path ids w)) path = SentFile (setOrder (sent @ ids))"
    using Cons.prems by (simp add: markAsSent_SentFile)
  from Cons.IH[OF this] show ?case by (auto simp: set_setOrder)
qed

subsection \<open>Entries are never removed\<close>

lemma ensureCacheExists_mono: "hasBeenSent p x w \<Longrightarrow> hasBeenSent p x (ensureCacheExists path w)"
  by (auto simp: ensureCacheExists_def hasBeenSent_def readCache_def)

lemma newDatadogService_mono:
  "hasBeenSent p x w \<Longrightarrow> hasBeenSent p x (snd (newDatadogService opts e api w))"
  by (simp add: newDatadogService_def newWorkflowCache_def Let_def ensureCacheExists_mono)

lemma submitMetrics_mono:
  assumes "submitMetrics svc series ids w = Some (r, w')" "hasBeenSent p x w"
  shows "hasBeenSent p x w'"
proof (cases "length series = length ids")
  case True
  from submitMetrics_Some[OF assms(1) True] runWindows_mono[OF _ assms(2)] show ?thesis by metis
next
  case False
  with assms show ?thesis by (simp add: submitMetrics_def)
qed

subsection \<open>Pairs and their components\<close>


lemma map_snd_take_zip: "length xs = length ys \<Longrightarrow> map snd (take n (zip xs ys)) = take n ys"
  by (simp add: take_map[symmetric])

subsection \<open>The files and the ledger after a call\<close>





lemma submitMetrics_calls_dry:
  assumes "submitMetrics svc series ids w = Some (r, w')" "dryRun svc"
  shows "transportCalls (trace w') = transportCalls (trace w)"
proof (cases "length series = length ids")
  case True
  from submitMetrics_Some[OF assms(1) True] runWindows_calls_dry[OF _ assms(2)] show ?thesis by metis
next
  case False
  with assms show ?thesis by (simp add: submitMetrics_def)
qed

lemma concat_windows: "0 < n \<Longrightarrow> concat (windows n xs) = xs"
proof (induction n xs rule: windows.induct)
  case (1 n xs)
  show ?case
  proof (cases "xs = []")
    case True
    then show ?thesis by (simp add: windows_Nil)
  next
    case False
    with 1 show ?thesis by (simp add: windows_step)
  qed
qed

lemma windows_bounds: "win \<in> set (windows n xs) \<Longrightarrow> win \<noteq> [] \<and> length win \<le> n"
proof (induction n xs rule: windows.induct)
  case (1 n xs)
  show ?case
  proof (cases "n = 0 \<or> xs = []")
    case True
    with 1(2) show ?thesis by (auto simp: windows_Nil windows_zero)
  next
    case False
    with 1 show ?thesis by (auto simp: windows_step)
  qed
qed

lemma submitMetrics_concat_windows:
  assumes "submitMetrics svc series ids w = Some y" "length series = length ids"
  shows "concat (windows (batchSize svc) (zip series ids)) = zip series ids"
proof (cases "0 < batchSize svc")
  case True
  then show ?thesis by (rule concat_windows)
next
  case False
  from assms have "submitLoop svc (zip series ids) 0 w = Some y"
    by (simp add: submitMetrics_def pairUp_zip)
  from submitLoop_returns_aux[OF this] False have "zip series ids = []" by simp
  then show ?thesis by (simp only: windows_Nil concat.simps)
qed

lemma submitMetrics_sent:
  assumes "submitMetrics svc series ids w = Some (Inr u, w')"
  shows "hasBeenSent (cacheFilePath svc) x w' = (hasBeenSent (cacheFilePath svc) x w \<or> x \<in> set ids)"
proof (cases "length series = length ids")
  case True
  from submitMetrics_Some[OF assms(1) True]
  have "runWindows svc (windows (batchSize svc) (zip series ids)) w = (Inr u, w')" by simp
  from runWindows_sent[OF this, of x] submitMetrics_concat_windows[OF assms True] True show ?thesis
    by simp
next
  case False
  with assms show ?thesis by (simp add: submitMetrics_def)
qed

subsection \<open>The Transport calls of a run\<close>

lemma windows_nth:
  "k < length (windows n xs) \<Longrightarrow> windows n xs ! k = slice (k * n) (k * n + n) xs"
proof (induction n xs arbitrary: k rule: windows.induct)
  case (1 n xs)
  show ?case
  proof (cases "n = 0 \<or> xs = []")
    case True
    with 1(2) show ?thesis by (auto simp: windows_Nil windows_zero)
  next
    case False
    then have step: "windows n xs = take n xs # windows n (drop n xs)"
      by (simp add: windows_step)
    show ?thesis
    proof (cases k)
      case 0
      then show ?thesis by (simp add: step slice_def)
    next
      case (Suc j)
      with 1(2) step have "j < length (windows n (drop n xs))" by simp
      from 1(1)[OF False this]
      have "windows n (drop n xs) ! j = take n (drop (j * n) (drop n xs))"
        by (simp only: slice_take_drop)
      also have "\<dots> = take n (drop (Suc j * n) xs)"
        by (simp add: add.commute)
      also have "\<dots> = slice (Suc j * n) (Suc j * n + n) xs"
        by (simp only: slice_take_drop)
      finally show ?thesis using Suc by (simp add: step)
    qed
  qed
qed

lemma runWindows_newCalls:
  assumes "runWindows svc wins w = (r, w')" "\<not> dryRun svc"
  shows "transportCalls (trace w') = transportCalls (trace w) @ newCalls w w'"
    and "prefix (newCalls w w') (map (map fst) (subBatches (\<lambda>x. hasBeenSent (cacheFilePath svc) x w) wins))"
    and "r = Inr () \<Longrightarrow> newCalls w w' = map (map fst) (subBatches (\<lambda>x. hasBeenSent (cacheFilePath svc) x w) wins)"
proof -
  from runWindows_calls[OF assms(2) assms(1)] obtain cs where
    cs: "transportCalls (trace w') = transportCalls (trace w) @ cs"
      "prefix cs (map (map fst) (subBatches (\<lambda>x. hasBeenSent (cacheFilePath svc) x w) wins))"
      "r = Inr () \<longrightarrow> cs = map (map fst) (subBatches (\<lambda>x. hasBeenSent (cacheFilePath svc) x w) wins)"
    by blast
  have n: "newCalls w w' = cs" by (simp add: newCalls_def cs(1))
  show "transportCalls (trace w') = transportCalls (trace w) @ newCalls w w'" by (simp add: n cs(1))
  show "prefix (newCalls w w') (map (map fst) (subBatches (\<lambda>x. hasBeenSent (cacheFilePath svc) x w) wins))"
    by (simp add: n cs(2))
  show "r = Inr () \<Longrightarrow> newCalls w w' = map (map fst) (subBatches (\<lambda>x. hasBeenSent (cacheFilePath svc) x w) wins)"
    using cs(3) by (simp add: n)
qed

text \<open>
  With series whose timestamps can be printed, a readable ledger, and in live mode a
  Transport that accepts every payload, no window throws.
\<close>

lemma payloadLogs_append: "payloadLogs (xs @ ys) = (payloadLogs xs \<and> payloadLogs ys)"
  by (simp add: payloadLogs_def)

lemma payloadLogs_filter: "payloadLogs (map fst batch) \<Longrightarrow> payloadLogs (map fst (filter P batch))"
  by (auto simp: payloadLogs_def list_all_iff)

lemma payloadLogs_take: "payloadLogs xs \<Longrightarrow> payloadLogs (take n xs)"
  by (auto simp: payloadLogs_def list_all_iff dest: in_set_takeD)

lemma processBatch_success:
  assumes "files w (cacheFilePath svc) = SentFile sent"
    and "dryRun svc \<or> (\<forall>calls payload. metricsApi svc calls payload = Resolved)"
    and "payloadLogs (map fst batch)"
  shows "\<exists>w' sent'. processBatch svc batch w = (Inr (), w') \<and> files w' (cacheFilePath svc) = SentFile sent'"
proof -
  obtain r w' where p: "processBatch svc batch w = (r, w')" by (cases "processBatch svc batch w")
  then show ?thesis
  proof (cases rule: processBatch_cases)
    case skip
    with p assms show ?thesis by simp
  next
    case (mark w2)
    with assms(1) have "files w2 (cacheFilePath svc) = SentFile sent" by simp
    from markAsSent_SentFile[OF this] mark(4) p show ?thesis by auto
  next
    case (rejected e)
    with assms(2) show ?thesis by auto
  next
    case logfail
    with payloadLogs_filter[OF assms(3)] show ?thesis by simp
  qed
qed

lemma runWindows_success:
  assumes "dryRun svc \<or> (\<forall>calls payload. metricsApi svc calls payload = Resolved)"
  shows "files w (cacheFilePath svc) = SentFile sent \<Longrightarrow> payloadLogs (map fst (concat wins)) \<Longrightarrow>
    \<exists>w'. runWindows svc wins w = (Inr (), w')"
proof (induction wins arbitrary: w sent)
  case Nil
  then show ?case by simp
next
  case (Cons win wins)
  from Cons.prems(2) have l: "payloadLogs (map fst win)" "payloadLogs (map fst (concat wins))"
    by (simp_all add: payloadLogs_append)
  from processBatch_success[OF Cons.prems(1) assms l(1)] obtain w1 sent1 where
    "processBatch svc win w = (Inr (), w1)" "files w1 (cacheFilePath svc) = SentFile sent1" by blast
  with Cons.IH[of w1 sent1] l(2) show ?case by simp
qed

subsection \<open>The Transport calls of a call\<close>

lemma submitMetrics_newCalls:
  assumes "submitMetrics svc series ids w = Some (r, w')" "length series = length ids" "\<not> dryRun svc"
  shows "transportCalls (trace w') = transportCalls (trace w) @ newCalls w w'"
    and "prefix (newCalls w w')
           (map (map fst) (subBatches (\<lambda>x. hasBeenSent (cacheFilePath svc) x w)
              (windows (batchSize svc) (zip series ids))))"
    and "r = Inr () \<Longrightarrow> newCalls w w'
           = map (map fst) (subBatches (\<lambda>x. hasBeenSent (cacheFilePath svc) x w)
              (windows (batchSize svc) (zip series ids)))"
proof -
  from submitMetrics_Some[OF assms(1,2)]
  have run: "runWindows svc (windows (batchSize svc) (zip series ids)) w = (r, w')" by simp
  from runWindows_newCalls[OF run assms(3)]
  show "transportCalls (trace w') = transportCalls (trace w) @ newCalls w w'"
    and "prefix (newCalls w w')
           (map (map fst) (subBatches (\<lambda>x. hasBeenSent (cacheFilePath svc) x w)
              (windows (batchSize svc) (zip series ids))))"
    and "r = Inr () \<Longrightarrow> newCalls w w'
           = map (map fst) (subBatches (\<lambda>x. hasBeenSent (cacheFilePath svc) x w)
              (windows (batchSize svc) (zip series ids)))"
    by simp_all
qed

lemma submitMetrics_success:
  assumes "0 < batchSize svc" "length series = length ids"
    "files w (cacheFilePath svc) = SentFile sent"
    "dryRun svc \<or> (\<forall>calls payload. metricsApi svc calls payload = Resolved)"
    "payloadLogs series"
  shows "\<exists>w'. submitMetrics svc series ids w = Some (Inr (), w')"
proof -
  have "payloadLogs (map fst (concat (windows (batchSize svc) (zip series ids))))"
    using assms(1,2,5) by (simp add: concat_windows)
  from runWindows_success[OF assms(4) assms(3) this] submitMetrics_windows[OF assms(1,2)]
  show ?thesis by simp
qed

lemma windows_three: "windows 2 [a, b, c] = [[a, b], [c]]"
  by (simp add: windows_step windows_Nil)

text \<open>Unfolding the definitions runs the model on a concrete input.\<close>

lemmas eval_defs = submitMetrics_def pairUp_def slice_def processBatch_def
  hasBeenSent_def readCache_def ledgerWorld_def logMetricPayload_def payloadLogs_def markAsSent_def
  setOrder_def liveService_def alwaysOk_def newCalls_def Let_def

subsection \<open>Runs over a prefix of the windows\<close>

lemma runWindows_append:
  "runWindows svc (pre @ post) w =
     (case runWindows svc pre w of
        (Inl e, w') \<Rightarrow> (Inl e, w')
      | (Inr u, w') \<Rightarrow> runWindows svc post w')"
  by (induction pre arbitrary: w) (auto split: prod.splits sum.splits)

lemma windows_append:
  "length xs = k * n \<Longrightarrow> windows n (xs @ ys) = windows n xs @ windows n ys"
proof (induction k arbitrary: xs)
  case 0
  then show ?case by (simp add: windows_Nil)
next
  case (Suc k)
  show ?case
  proof (cases "n = 0")
    case True
    then show ?thesis by (simp add: windows_zero)
  next
    case False
    with Suc.prems have ne: "xs \<noteq> []" and len: "n \<le> length xs" by auto
    have "length (drop n xs) = k * n" using Suc.prems by simp
    from Suc.IH[OF this] have "windows n (drop n xs @ ys) = windows n (drop n xs) @ windows n ys" .
    with False ne len show ?thesis by (simp add: windows_step)
  qed
qed

lemma windows_split:
  assumes "k * n \<le> length xs"
  shows "windows n xs = windows n (take (k * n) xs) @ windows n (drop (k * n) xs)"
proof -
  have "length (take (k * n) xs) = k * n" using assms by simp
  from windows_append[OF this, of "drop (k * n) xs"] show ?thesis by simp
qed

subsection \<open>Sub-batches and identifiers\<close>

lemma subBatches_elem:
  "b \<in> set (subBatches sent wins) \<Longrightarrow>
     b \<noteq> [] \<and> set b \<subseteq> set (concat wins) \<and> (\<forall>pair\<in>set b. \<not> sent (snd pair))"
proof (induction wins arbitrary: sent)
  case Nil
  then show ?case by simp
next
  case (Cons win wins)
  let ?new = "filter (\<lambda>pair. \<not> sent (snd pair)) win"
  from Cons.prems consider "b = ?new" "?new \<noteq> []"
    | "b \<in> set (subBatches (\<lambda>x. sent x \<or> x \<in> set (map snd win)) wins)"
    by (auto simp: Let_def split: if_splits)
  then show ?case
  proof cases
    case 1
    then show ?thesis by auto
  next
    case 2
    from Cons.IH[OF 2] show ?thesis by auto
  qed
qed

lemma subBatches_count:
  "length (filter (\<lambda>b. x \<in> snd ` set b) (subBatches sent wins))
     = (if \<not> sent x \<and> x \<in> snd ` set (concat wins) then 1 else 0)"
proof (induction wins arbitrary: sent)
  case Nil
  then show ?case by simp
next
  case (Cons win wins)
  let ?new = "filter (\<lambda>pair. \<not> sent (snd pair)) win"
  let ?sent' = "\<lambda>x. sent x \<or> x \<in> set (map snd win)"
  have new: "x \<in> snd ` set ?new \<longleftrightarrow> \<not> sent x \<and> x \<in> snd ` set win" by auto
  have head: "length (filter (\<lambda>b. x \<in> snd ` set b) (if ?new = [] then [] else [?new]))
      = (if \<not> sent x \<and> x \<in> snd ` set win then 1 else 0)"
    using new by (cases "?new = []") auto
  have "length (filter (\<lambda>b. x \<in> snd ` set b) (subBatches sent (win # wins)))
      = length (filter (\<lambda>b. x \<in> snd ` set b) (if ?new = [] then [] else [?new]))
        + length (filter (\<lambda>b. x \<in> snd ` set b) (subBatches ?sent' wins))"
    by (simp add: Let_def)
  also have "\<dots> = (if \<not> sent x \<and> x \<in> snd ` set win then 1 else 0)
        + (if \<not> ?sent' x \<and> x \<in> snd ` set (concat wins) then 1 else 0)"
    by (simp only: head Cons.IH)
  also have "\<dots> = (if \<not> sent x \<and> x \<in> snd ` set (concat (win # wins)) then 1 else 0)"
    by auto
  finally show ?case .
qed

lemma runWindows_all_sent:
  "\<forall>pair\<in>set (concat wins). hasBeenSent (cacheFilePath svc) (snd pair) w \<Longrightarrow>
   runWindows svc wins w
     = (Inr (), w\<lparr>trace := trace w @ map (\<lambda>pair. LedgerRead (cacheFilePath svc)) (concat wins)\<rparr>)"
proof (induction wins arbitrary: w)
  case Nil
  then show ?case by simp
next
  case (Cons win wins)
  let ?w1 = "w\<lparr>trace := trace w @ map (\<lambda>pair. LedgerRead (cacheFilePath svc)) win\<rparr>"
  have "filter (\<lambda>pair. \<not> hasBeenSent (cacheFilePath svc) (snd pair) w) win = []"
    using Cons.prems by (simp add: filter_empty_conv)
  from processBatch_skip[OF this] have pb: "processBatch svc win w = (Inr (), ?w1)" .
  have "\<forall>pair\<in>set (concat wins). hasBeenSent (cacheFilePath svc) (snd pair) ?w1"
    using Cons.prems by (simp add: hasBeenSent_def)
  from Cons.IH[OF this] show ?case by (simp add: pb)
qed

lemma submitMetrics_Inr_length:
  "submitMetrics svc series ids w = Some (Inr u, w') \<Longrightarrow> length series = length ids"
  by (auto simp: submitMetrics_def split: if_splits)

lemma submitMetrics_again:
  assumes "submitMetrics svc series ids w = Some (Inr (), w1)"
  shows "submitMetrics svc series ids w1
     = Some (Inr (), w1\<lparr>trace := trace w1 @ map (\<lambda>i. LedgerRead (cacheFilePath svc)) ids\<rparr>)"
proof -
  note len = submitMetrics_Inr_length[OF assms]
  have sent: "\<forall>pair\<in>set (zip series ids). hasBeenSent (cacheFilePath svc) (snd pair) w1"
  proof
    fix pair assume "pair \<in> set (zip series ids)"
    then have "snd pair \<in> set ids"
      using set_zip_rightD[of "fst pair" "snd pair" series ids] by simp
    with submitMetrics_sent[OF assms, of "snd pair"]
    show "hasBeenSent (cacheFilePath svc) (snd pair) w1" by simp
  qed
  have reads: "map (\<lambda>pair. LedgerRead (cacheFilePath svc)) (zip series ids)
      = map (\<lambda>i. LedgerRead (cacheFilePath svc)) ids"
    using len by (simp add: map_replicate_const)
  show ?thesis
  proof (cases "0 < batchSize svc")
    case True
    have "\<forall>pair\<in>set (concat (windows (batchSize svc) (zip series ids))).
            hasBeenSent (cacheFilePath svc) (snd pair) w1"
      using sent by (simp only: concat_windows[OF True])
    from runWindows_all_sent[OF this] show ?thesis
      by (simp add: submitMetrics_windows[OF True len] concat_windows[OF True] reads)
  next
    case False
    from assms len have "submitLoop svc (zip series ids) 0 w = Some (Inr (), w1)"
      by (simp add: submitMetrics_def pairUp_zip)
    from submitLoop_returns_aux[OF this] False have "series = [] \<or> ids = []" by simp
    with len have e: "ids = []" "series = []" by auto
    have "submitLoop svc [] 0 w1 = Some (Inr (), w1)"
      by (subst submitLoop.simps) simp
    then show ?thesis
      by (simp add: e submitMetrics_def pairUp_def)
  qed
qed

lemma newCalls_self: "newCalls w (w\<lparr>trace := trace w @ map (\<lambda>i. LedgerRead (f i)) xs\<rparr>) = []"
  by (simp add: newCalls_def transportCalls_append transportCalls_reads)

lemma submitMetrics_calls_prefix:
  assumes "submitMetrics svc series ids w = Some (r, w')"
  shows "prefix (newCalls w w')
           (map (map fst) (subBatches (\<lambda>x. hasBeenSent (cacheFilePath svc) x w)
              (windows (batchSize svc) (pairUp series ids))))"
proof (cases "length series = length ids")
  case False
  with assms have "w' = w" by (simp add: submitMetrics_def)
  then show ?thesis by (simp add: newCalls_def)
next
  case True
  show ?thesis
  proof (cases "dryRun svc")
    case True
    from submitMetrics_calls_dry[OF assms True] show ?thesis by (simp add: newCalls_def)
  next
    case False
    from submitMetrics_newCalls(2)[OF assms True False] show ?thesis
      by (simp add: pairUp_zip[OF True])
  qed
qed

subsection \<open>Two positions of a list\<close>


subsection \<open>The series of the sub-batches\<close>

lemma subseq_filter_mono:
  assumes "\<And>x. P x \<Longrightarrow> Q x"
  shows "subseq (filter P xs) (filter Q xs)"
proof -
  have "filter P xs = filter P (filter Q xs)"
    using assms by (auto intro: filter_cong)
  moreover have "subseq (filter P (filter Q xs)) (filter Q xs)"
    by (rule subseq_filter_left)
  ultimately show ?thesis by (simp only:)
qed

lemma subBatches_concat_subseq:
  "subseq (concat (subBatches sent wins)) (filter (\<lambda>pair. \<not> sent (snd pair)) (concat wins))"
proof (induction wins arbitrary: sent)
  case Nil
  then show ?case by simp
next
  case (Cons win wins)
  let ?new = "filter (\<lambda>pair. \<not> sent (snd pair)) win"
  let ?sent' = "\<lambda>x. sent x \<or> x \<in> set (map snd win)"
  have c: "concat (subBatches sent (win # wins)) = ?new @ concat (subBatches ?sent' wins)"
    by (simp add: Let_def)
  have "subseq (filter (\<lambda>pair. \<not> ?sent' (snd pair)) (concat wins))
          (filter (\<lambda>pair. \<not> sent (snd pair)) (concat wins))"
    by (rule subseq_filter_mono) simp
  with Cons.IH[of ?sent']
  have "subseq (concat (subBatches ?sent' wins)) (filter (\<lambda>pair. \<not> sent (snd pair)) (concat wins))"
    by (rule subseq_order.trans)
  then have "subseq (?new @ concat (subBatches ?sent' wins))
          (?new @ filter (\<lambda>pair. \<not> sent (snd pair)) (concat wins))"
    by (simp only: subseq_append')
  then show ?case by (simp only: c) simp
qed

lemma subBatches_concat_distinct:
  "distinct (map snd (concat wins)) \<Longrightarrow>
   concat (subBatches sent wins) = filter (\<lambda>pair. \<not> sent (snd pair)) (concat wins)"
proof (induction wins arbitrary: sent)
  case Nil
  then show ?case by simp
next
  case (Cons win wins)
  let ?new = "filter (\<lambda>pair. \<not> sent (snd pair)) win"
  let ?sent' = "\<lambda>x. sent x \<or> x \<in> set (map snd win)"
  have c: "concat (subBatches sent (win # wins)) = ?new @ concat (subBatches ?sent' wins)"
    by (simp add: Let_def)
  from Cons.prems have d: "distinct (map snd (concat wins))"
    and disj: "snd ` set win \<inter> snd ` set (concat wins) = {}" by auto
  have "filter (\<lambda>pair. \<not> ?sent' (snd pair)) (concat wins)
      = filter (\<lambda>pair. \<not> sent (snd pair)) (concat wins)"
    using disj by (intro filter_cong) auto
  with Cons.IH[OF d, of ?sent'] show ?case by (simp only: c) simp
qed

lemma prefix_concat_subseq: "prefix xs ys \<Longrightarrow> subseq (concat xs) (concat ys)"
  by (auto simp: prefix_def)

text \<open>The metric points a call hands to the Transport, in order.\<close>

lemma submitMetrics_points_subseq:
  assumes "submitMetrics svc series ids w = Some (r, w')"
  shows "subseq (concat (newCalls w w'))
           (map fst (filter (\<lambda>pair. \<not> hasBeenSent (cacheFilePath svc) (snd pair) w)
              (pairUp series ids)))"
proof (cases "length series = length ids")
  case False
  with assms have "w' = w" by (simp add: submitMetrics_def)
  then show ?thesis by (simp add: newCalls_def)
next
  case True
  let ?B = "subBatches (\<lambda>x. hasBeenSent (cacheFilePath svc) x w)
              (windows (batchSize svc) (pairUp series ids))"
  have cw: "concat (windows (batchSize svc) (pairUp series ids)) = pairUp series ids"
    using submitMetrics_concat_windows[OF assms True] by (simp add: pairUp_zip[OF True])
  from submitMetrics_calls_prefix[OF assms]
  have "subseq (concat (newCalls w w')) (concat (map (map fst) ?B))"
    by (rule prefix_concat_subseq)
  also have "concat (map (map fst) ?B) = map fst (concat ?B)"
    by (simp add: map_concat)
  finally have "subseq (concat (newCalls w w')) (map fst (concat ?B))" .
  moreover have "subseq (map fst (concat ?B))
      (map fst (filter (\<lambda>pair. \<not> hasBeenSent (cacheFilePath svc) (snd pair) w) (pairUp series ids)))"
    using subBatches_concat_subseq[of "\<lambda>x. hasBeenSent (cacheFilePath svc) x w"
        "windows (batchSize svc) (pairUp series ids)"]
    by (simp only: cw) (rule subseq_map)
  ultimately show ?thesis by (rule subseq_order.trans)
qed

lemma submitMetrics_points:
  assumes "submitMetrics svc series ids w = Some (Inr (), w')" "\<not> dryRun svc"
  shows "concat (newCalls w w')
           = map fst (concat (subBatches (\<lambda>x. hasBeenSent (cacheFilePath svc) x w)
               (windows (batchSize svc) (pairUp series ids))))"
    and "distinct ids \<Longrightarrow> concat (newCalls w w')
           = map fst (filter (\<lambda>pair. \<not> hasBeenSent (cacheFilePath svc) (snd pair) w)
               (pairUp series ids))"
proof -
  note len = submitMetrics_Inr_length[OF assms(1)]
  note z = pairUp_zip[OF len]
  let ?wins = "windows (batchSize svc) (pairUp series ids)"
  let ?B = "subBatches (\<lambda>x. hasBeenSent (cacheFilePath svc) x w) ?wins"
  have cw: "concat ?wins = pairUp series ids"
    using submitMetrics_concat_windows[OF assms(1) len] by (simp add: z)
  from submitMetrics_newCalls(3)[OF assms(1) len assms(2)]
  have "newCalls w w' = map (map fst) ?B" by (simp add: z)
  then show c: "concat (newCalls w w') = map fst (concat ?B)"
    by (simp add: map_concat)
  assume d: "distinct ids"
  have "map snd (concat ?wins) = ids"
    by (simp only: cw) (simp add: z len)
  with d have "distinct (map snd (concat ?wins))"
    by (simp only:)
  from subBatches_concat_distinct[OF this, of "\<lambda>x. hasBeenSent (cacheFilePath svc) x w"]
  show "concat (newCalls w w')
           = map fst (filter (\<lambda>pair. \<not> hasBeenSent (cacheFilePath svc) (snd pair) w)
               (pairUp series ids))"
    by (simp only: c cw)
qed

subsection \<open>A service built by the constructor\<close>


subsection \<open>The window of a repeated identifier\<close>



section \<open>Properties of the ledger and of submission\<close>

subsection \<open>Idempotence of submission\<close>

text \<open>
  C1. When a call of \<^verbatim>\<open>submitMetrics\<close> has returned normally, the same call again returns
  normally, only reads the ledger (once for each identifier), and makes no Transport call:
  the Transport calls of both calls together are those of the first. In live mode these
  are the payloads of the non-empty sub-batches of the windows, one call for each, and
  every identifier of the input is in exactly one of these sub-batches if it was not
  recorded before the first call, and in none if it was. More generally, for any call
  of \<^verbatim>\<open>submitMetrics\<close> on the same ledger, whatever it returns: an identifier that is recorded
  before the call is recorded after it, the Transport calls of the call are payloads of
  sub-batches of its windows, and the identifier is in none of these sub-batches.
\<close>

theorem submitMetrics_idempotent:
  "(submitMetrics svc series ids w = Some (Inr (), w1) \<longrightarrow>
      submitMetrics svc series ids w1
        = Some (Inr (), w1\<lparr>trace := trace w1 @ map (\<lambda>i. LedgerRead (cacheFilePath svc)) ids\<rparr>)
    \<and> newCalls w1 (w1\<lparr>trace := trace w1 @ map (\<lambda>i. LedgerRead (cacheFilePath svc)) ids\<rparr>) = []
    \<and> newCalls w (w1\<lparr>trace := trace w1 @ map (\<lambda>i. LedgerRead (cacheFilePath svc)) ids\<rparr>)
        = newCalls w w1
    \<and> (\<not> dryRun svc \<longrightarrow>
          newCalls w w1
            = map (map fst) (subBatches (\<lambda>x. hasBeenSent (cacheFilePath svc) x w)
                (windows (batchSize svc) (pairUp series ids))))
    \<and> (\<forall>x\<in>set ids.
          length (filter (\<lambda>b. x \<in> snd ` set b)
            (subBatches (\<lambda>x. hasBeenSent (cacheFilePath svc) x w)
               (windows (batchSize svc) (pairUp series ids))))
            = (if hasBeenSent (cacheFilePath svc) x w then 0 else 1)))
 \<and> (submitMetrics svc series' ids' w0 = Some (r, w0') \<and> hasBeenSent (cacheFilePath svc) x w0 \<longrightarrow>
      hasBeenSent (cacheFilePath svc) x w0'
    \<and> prefix (newCalls w0 w0')
         (map (map fst) (subBatches (\<lambda>x. hasBeenSent (cacheFilePath svc) x w0)
            (windows (batchSize svc) (pairUp series' ids'))))
    \<and> (\<forall>b\<in>set (subBatches (\<lambda>x. hasBeenSent (cacheFilePath svc) x w0)
            (windows (batchSize svc) (pairUp series' ids'))). x \<notin> snd ` set b))"
proof (intro conjI impI ballI)
  assume first: "submitMetrics svc series ids w = Some (Inr (), w1)"
  note len = submitMetrics_Inr_length[OF first]
  note z = pairUp_zip[OF len]
  let ?w2 = "w1\<lparr>trace := trace w1 @ map (\<lambda>i. LedgerRead (cacheFilePath svc)) ids\<rparr>"
  show "submitMetrics svc series ids w1 = Some (Inr (), ?w2)"
    using first by (rule submitMetrics_again)
  show "newCalls w1 ?w2 = []" by (rule newCalls_self)
  show "newCalls w ?w2 = newCalls w w1"
    by (simp add: newCalls_def transportCalls_append transportCalls_reads)
  show "newCalls w w1
            = map (map fst) (subBatches (\<lambda>x. hasBeenSent (cacheFilePath svc) x w)
                (windows (batchSize svc) (pairUp series ids)))" if "\<not> dryRun svc"
    using submitMetrics_newCalls(3)[OF first len that] by (simp add: z)
  fix x assume x: "x \<in> set ids"
  have "concat (windows (batchSize svc) (zip series ids)) = zip series ids"
    using first len by (rule submitMetrics_concat_windows)
  moreover have "snd ` set (zip series ids) = set ids"
    using len by (simp flip: set_map)
  ultimately show "length (filter (\<lambda>b. x \<in> snd ` set b)
            (subBatches (\<lambda>x. hasBeenSent (cacheFilePath svc) x w)
               (windows (batchSize svc) (pairUp series ids))))
            = (if hasBeenSent (cacheFilePath svc) x w then 0 else 1)"
    using x by (simp add: subBatches_count z)
next
  assume a: "submitMetrics svc series' ids' w0 = Some (r, w0') \<and> hasBeenSent (cacheFilePath svc) x w0"
  then have call: "submitMetrics svc series' ids' w0 = Some (r, w0')"
    and sent: "hasBeenSent (cacheFilePath svc) x w0" by simp_all
  show "hasBeenSent (cacheFilePath svc) x w0'"
    using call sent by (rule submitMetrics_mono)
  show "prefix (newCalls w0 w0')
         (map (map fst) (subBatches (\<lambda>x. hasBeenSent (cacheFilePath svc) x w0)
            (windows (batchSize svc) (pairUp series' ids'))))"
    using call by (rule submitMetrics_calls_prefix)
  fix b assume "b \<in> set (subBatches (\<lambda>x. hasBeenSent (cacheFilePath svc) x w0)
            (windows (batchSize svc) (pairUp series' ids')))"
  from subBatches_elem[OF this] sent show "x \<notin> snd ` set b" by auto
qed

theorem submitMetrics_idempotent_witness:
  "submitMetrics (liveService 10 alwaysOk) [series155] [''workflow-1'']
       (ledgerWorld ''sent-workflows-test.json'' [])
     = Some (Inr (),
         ledgerWorld ''sent-workflows-test.json'' [''workflow-1'']
           \<lparr>trace := [LedgerRead ''sent-workflows-test.json'', AuditWrite False [series155],
                       TransportCall [series155], LedgerRead ''sent-workflows-test.json'',
                       LedgerWrite ''sent-workflows-test.json'' [''workflow-1'']]\<rparr>)
 \<and> submitMetrics (liveService 10 alwaysOk) [series155] [''workflow-1'']
       (ledgerWorld ''sent-workflows-test.json'' [''workflow-1'']
           \<lparr>trace := [LedgerRead ''sent-workflows-test.json'', AuditWrite False [series155],
                       TransportCall [series155], LedgerRead ''sent-workflows-test.json'',
                       LedgerWrite ''sent-workflows-test.json'' [''workflow-1'']]\<rparr>)
     = Some (Inr (),
         ledgerWorld ''sent-workflows-test.json'' [''workflow-1'']
           \<lparr>trace := [LedgerRead ''sent-workflows-test.json'', AuditWrite False [series155],
                       TransportCall [series155], LedgerRead ''sent-workflows-test.json'',
                       LedgerWrite ''sent-workflows-test.json'' [''workflow-1''],
                       LedgerRead ''sent-workflows-test.json'']\<rparr>)
 \<and> newCalls (ledgerWorld ''sent-workflows-test.json'' [] :: metric_series world)
       (ledgerWorld ''sent-workflows-test.json'' [''workflow-1'']
           \<lparr>trace := [LedgerRead ''sent-workflows-test.json'', AuditWrite False [series155],
                       TransportCall [series155], LedgerRead ''sent-workflows-test.json'',
                       LedgerWrite ''sent-workflows-test.json'' [''workflow-1''],
                       LedgerRead ''sent-workflows-test.json'']\<rparr>)
     = [[series155]]
 \<and> length (filter (\<lambda>b. ''workflow-1'' \<in> snd ` set b)
       (subBatches (\<lambda>x. hasBeenSent ''sent-workflows-test.json'' x
            (ledgerWorld ''sent-workflows-test.json'' [] :: metric_series world))
          (windows 10 (pairUp [series155] [''workflow-1''])))) = 1
 \<and> hasBeenSent ''sent-workflows-test.json'' ''workflow-1''
       (ledgerWorld ''sent-workflows-test.json'' [''workflow-1'']
           \<lparr>trace := [LedgerRead ''sent-workflows-test.json'', AuditWrite False [series155],
                       TransportCall [series155], LedgerRead ''sent-workflows-test.json'',
                       LedgerWrite ''sent-workflows-test.json'' [''workflow-1'']]\<rparr>)"
proof -
  let ?svc = "liveService 10 alwaysOk :: metric_series service"
  let ?w = "ledgerWorld ''sent-workflows-test.json'' [] :: metric_series world"
  let ?w1 = "ledgerWorld ''sent-workflows-test.json'' [''workflow-1'']
           \<lparr>trace := [LedgerRead ''sent-workflows-test.json'', AuditWrite False [series155],
                       TransportCall [series155], LedgerRead ''sent-workflows-test.json'',
                       LedgerWrite ''sent-workflows-test.json'' [''workflow-1'']]\<rparr>"
  let ?w2 = "?w1\<lparr>trace := trace ?w1 @ map (\<lambda>i. LedgerRead (cacheFilePath ?svc)) [''workflow-1'']\<rparr>"
  have first: "submitMetrics ?svc [series155] [''workflow-1''] ?w = Some (Inr (), ?w1)"
    by (simp add: eval_defs submitLoop.simps)
  have sent: "hasBeenSent (cacheFilePath ?svc) ''workflow-1'' ?w1"
    by (simp add: liveService_def hasBeenSent_def readCache_def ledgerWorld_def)
  have new: "\<not> hasBeenSent (cacheFilePath ?svc) ''workflow-1'' ?w"
    by (simp add: liveService_def hasBeenSent_def readCache_def ledgerWorld_def)
  have live: "\<not> dryRun ?svc" by (simp add: liveService_def)
  note T = submitMetrics_idempotent[of ?svc "[series155]" "[''workflow-1'']" ?w ?w1
      "[series155]" "[''workflow-1'']" ?w1 "Inr ()" ?w2 "''workflow-1''"]
  note T1 = T[THEN conjunct1, THEN mp, OF first]
  note second = T1[THEN conjunct1]
  note total = T1[THEN conjunct2, THEN conjunct2, THEN conjunct1]
  note count = T1[THEN conjunct2, THEN conjunct2, THEN conjunct2, THEN conjunct2]
  note later = T[THEN conjunct2, THEN mp, OF conjI[OF second sent], THEN conjunct1]
  have calls: "newCalls ?w ?w1 = [[series155]]"
    by (simp add: newCalls_def ledgerWorld_def)
  from count new have one: "length (filter (\<lambda>b. ''workflow-1'' \<in> snd ` set b)
            (subBatches (\<lambda>x. hasBeenSent (cacheFilePath ?svc) x ?w)
               (windows (batchSize ?svc) (pairUp [series155] [''workflow-1''])))) = 1"
    by simp
  have path: "cacheFilePath ?svc = ''sent-workflows-test.json''" "batchSize ?svc = 10"
    by (simp_all add: liveService_def)
  from first second total calls one sent later show ?thesis
    by (simp add: path)
qed

subsection \<open>A Transport call that throws\<close>

text \<open>
  C2, as stated, fails when an identifier of a later window was delivered by an earlier
  window of the same call. With \<^verbatim>\<open>batchSize\<close> 1 and the identifiers \<^verbatim>\<open>workflow-1\<close>, \<^verbatim>\<open>workflow-2\<close>,
  \<^verbatim>\<open>workflow-1\<close>, the first Transport call is accepted and the second throws: \<^verbatim>\<open>workflow-1\<close> is
  the identifier of the third window, which comes after the failing one, and the call has
  added it to the ledger.
\<close>

theorem transport_failure_atomic_counterexample:
  "submitMetrics (liveService 1 (failOnCall 1 ''API Error'')) [series155, series165, series175]
       [''workflow-1'', ''workflow-2'', ''workflow-1''] (ledgerWorld ''sent-workflows-test.json'' [])
     = Some (Inl (ApiError ''API Error''),
         ledgerWorld ''sent-workflows-test.json'' [''workflow-1'']
           \<lparr>trace := [LedgerRead ''sent-workflows-test.json'', AuditWrite False [series155],
                       TransportCall [series155], LedgerRead ''sent-workflows-test.json'',
                       LedgerWrite ''sent-workflows-test.json'' [''workflow-1''],
                       LedgerRead ''sent-workflows-test.json'', AuditWrite False [series165],
                       TransportCall [series165]]\<rparr>)
 \<and> slice 2 3 (pairUp [series155, series165, series175] [''workflow-1'', ''workflow-2'', ''workflow-1''])
     = [(series175, ''workflow-1'')]
 \<and> \<not> hasBeenSent ''sent-workflows-test.json'' ''workflow-1''
       (ledgerWorld ''sent-workflows-test.json'' [] :: metric_series world)
 \<and> hasBeenSent ''sent-workflows-test.json'' ''workflow-1''
       (ledgerWorld ''sent-workflows-test.json'' [''workflow-1'']
           \<lparr>trace := [LedgerRead ''sent-workflows-test.json'', AuditWrite False [series155],
                       TransportCall [series155], LedgerRead ''sent-workflows-test.json'',
                       LedgerWrite ''sent-workflows-test.json'' [''workflow-1''],
                       LedgerRead ''sent-workflows-test.json'', AuditWrite False [series165],
                       TransportCall [series165]]\<rparr>)"
  by (simp add: eval_defs failOnCall_def submitLoop.simps upt_rec)

text \<open>
  C2, amended. Let the first \<open>k\<close> windows be processed without error, leaving the state
  \<open>w1\<close> (the state in which \<^verbatim>\<open>submitMetrics\<close> on the first \<open>k\<close> windows alone ends), and let the
  Transport throw on the sub-batch of window \<open>k\<close>, in live mode; the Transport is called
  with that sub-batch once its audit log is written, so the timestamps of the sub-batch
  are ones that the audit log can print. Then the call throws: the
  \<^verbatim>\<open>Error\<close> of the Transport unchanged, or the unknown-error \<^verbatim>\<open>Error\<close> when the Transport threw
  something else. Its last effect is that Transport call: nothing is written after it and
  no later window is read, logged or submitted. The ledger is as the first \<open>k\<close> windows left
  it, so an identifier is recorded afterwards exactly if it was recorded before the call or
  is an identifier of one of the first \<open>k\<close> windows; no identifier of the failing sub-batch
  is recorded.
\<close>

theorem transport_failure_atomic:
  assumes "length series = length ids" and "0 < batchSize svc" and "\<not> dryRun svc"
    and "k * batchSize svc < length ids"
    and "submitMetrics svc (take (k * batchSize svc) series) (take (k * batchSize svc) ids) w
           = Some (Inr (), w1)"
    and "subBatch svc w1 (slice (k * batchSize svc) (k * batchSize svc + batchSize svc)
           (pairUp series ids)) \<noteq> []"
    and "metricsApi svc (transportCalls (trace w1))
           (map fst (subBatch svc w1 (slice (k * batchSize svc) (k * batchSize svc + batchSize svc)
              (pairUp series ids)))) \<noteq> Resolved"
    and "payloadLogs (map fst (subBatch svc w1 (slice (k * batchSize svc)
           (k * batchSize svc + batchSize svc) (pairUp series ids))))"
  shows "\<exists>w'. submitMetrics svc series ids w
           = Some (Inl (case metricsApi svc (transportCalls (trace w1))
                          (map fst (subBatch svc w1 (slice (k * batchSize svc)
                             (k * batchSize svc + batchSize svc) (pairUp series ids)))) of
                        RejectedError m \<Rightarrow> ApiError m | _ \<Rightarrow> UnknownSubmitError), w')
       \<and> w' = w1\<lparr>trace := trace w1
                  @ map (\<lambda>pair. LedgerRead (cacheFilePath svc))
                      (slice (k * batchSize svc) (k * batchSize svc + batchSize svc) (pairUp series ids))
                  @ [AuditWrite False (map fst (subBatch svc w1 (slice (k * batchSize svc)
                        (k * batchSize svc + batchSize svc) (pairUp series ids)))),
                     TransportCall (map fst (subBatch svc w1 (slice (k * batchSize svc)
                        (k * batchSize svc + batchSize svc) (pairUp series ids))))]\<rparr>
       \<and> files w' = files w1
       \<and> (\<forall>x. hasBeenSent (cacheFilePath svc) x w'
              = (hasBeenSent (cacheFilePath svc) x w \<or> x \<in> set (take (k * batchSize svc) ids)))
       \<and> (\<forall>pair \<in> set (subBatch svc w1 (slice (k * batchSize svc)
              (k * batchSize svc + batchSize svc) (pairUp series ids))).
            \<not> hasBeenSent (cacheFilePath svc) (snd pair) w')"
proof -
  let ?n = "batchSize svc"
  let ?j = "k * ?n"
  let ?p = "cacheFilePath svc"
  let ?paired = "zip series ids"
  let ?win = "slice ?j (?j + ?n) (pairUp series ids)"
  let ?new = "subBatch svc w1 ?win"
  let ?e = "case metricsApi svc (transportCalls (trace w1)) (map fst ?new) of
              RejectedError m \<Rightarrow> ApiError m | _ \<Rightarrow> UnknownSubmitError"
  let ?w' = "w1\<lparr>trace := trace w1 @ map (\<lambda>pair. LedgerRead ?p) ?win
                @ [AuditWrite False (map fst ?new), TransportCall (map fst ?new)]\<rparr>"
  have z: "pairUp series ids = ?paired" using assms(1) by (rule pairUp_zip)
  have jlen: "?j < length ?paired" using assms(1,4) by simp
  have win: "?win = take ?n (drop ?j ?paired)" by (simp only: z slice_take_drop)
  have len': "length (take ?j series) = length (take ?j ids)" using assms(1) by simp
  have pre: "runWindows svc (windows ?n (take ?j ?paired)) w = (Inr (), w1)"
    using submitMetrics_Some[OF assms(5) len'] by (simp add: take_zip)
  have rest: "windows ?n (drop ?j ?paired) = ?win # windows ?n (drop ?n (drop ?j ?paired))"
  proof -
    have "drop ?j ?paired \<noteq> []" using jlen by auto
    from windows_step[OF assms(2) this] show ?thesis by (simp only: win)
  qed
  have pb: "processBatch svc ?win w1 = (Inl ?e, ?w')"
    using processBatch_live_rejected[of svc w1 ?win ?new] assms(3,6,7,8)
    by (simp add: subBatch_def)
  have split: "windows ?n ?paired = windows ?n (take ?j ?paired) @ windows ?n (drop ?j ?paired)"
    using jlen by (intro windows_split) simp
  have run: "runWindows svc (windows ?n ?paired) w = (Inl ?e, ?w')"
    by (simp only: split runWindows_append pre rest runWindows.simps pb prod.case sum.case)
  have res: "submitMetrics svc series ids w = Some (Inl ?e, ?w')"
    using submitMetrics_windows[OF assms(2,1)] run by simp
  have sent1: "hasBeenSent ?p x w1 = (hasBeenSent ?p x w \<or> x \<in> set (take ?j ids))" for x
    using submitMetrics_sent[OF assms(5)] by simp
  have same: "hasBeenSent ?p x ?w' = hasBeenSent ?p x w1" for x
    by (simp add: hasBeenSent_def)
  have new: "\<forall>pair \<in> set ?new. \<not> hasBeenSent ?p (snd pair) ?w'"
    by (simp add: same) (simp add: subBatch_def)
  show ?thesis
    using res sent1 same new by (intro exI[of _ ?w']) simp
qed

theorem transport_failure_atomic_witness:
  "submitMetrics (liveService 1 (failOnCall 1 ''API Error'')) [series155, series165, series175]
       [''workflow-1'', ''workflow-2'', ''workflow-3''] (ledgerWorld ''sent-workflows-test.json'' [])
     = Some (Inl (ApiError ''API Error''),
         ledgerWorld ''sent-workflows-test.json'' [''workflow-1'']
           \<lparr>trace := [LedgerRead ''sent-workflows-test.json'', AuditWrite False [series155],
                       TransportCall [series155], LedgerRead ''sent-workflows-test.json'',
                       LedgerWrite ''sent-workflows-test.json'' [''workflow-1''],
                       LedgerRead ''sent-workflows-test.json'', AuditWrite False [series165],
                       TransportCall [series165]]\<rparr>)
 \<and> \<not> hasBeenSent ''sent-workflows-test.json'' ''workflow-2''
       (ledgerWorld ''sent-workflows-test.json'' [''workflow-1'']
           \<lparr>trace := [LedgerRead ''sent-workflows-test.json'', AuditWrite False [series155],
                       TransportCall [series155], LedgerRead ''sent-workflows-test.json'',
                       LedgerWrite ''sent-workflows-test.json'' [''workflow-1''],
                       LedgerRead ''sent-workflows-test.json'', AuditWrite False [series165],
                       TransportCall [series165]]\<rparr>)
 \<and> \<not> hasBeenSent ''sent-workflows-test.json'' ''workflow-3''
       (ledgerWorld ''sent-workflows-test.json'' [''workflow-1'']
           \<lparr>trace := [LedgerRead ''sent-workflows-test.json'', AuditWrite False [series155],
                       TransportCall [series155], LedgerRead ''sent-workflows-test.json'',
                       LedgerWrite ''sent-workflows-test.json'' [''workflow-1''],
                       LedgerRead ''sent-workflows-test.json'', AuditWrite False [series165],
                       TransportCall [series165]]\<rparr>)"
proof -
  let ?svc = "liveService 1 (failOnCall 1 ''API Error'') :: metric_series service"
  let ?w = "ledgerWorld ''sent-workflows-test.json'' [] :: metric_series world"
  let ?ids = "[''workflow-1'', ''workflow-2'', ''workflow-3'']"
  let ?w1 = "ledgerWorld ''sent-workflows-test.json'' [''workflow-1'']
           \<lparr>trace := [LedgerRead ''sent-workflows-test.json'', AuditWrite False [series155],
                       TransportCall [series155], LedgerRead ''sent-workflows-test.json'',
                       LedgerWrite ''sent-workflows-test.json'' [''workflow-1'']]\<rparr>"
  let ?w' = "ledgerWorld ''sent-workflows-test.json'' [''workflow-1'']
           \<lparr>trace := [LedgerRead ''sent-workflows-test.json'', AuditWrite False [series155],
                       TransportCall [series155], LedgerRead ''sent-workflows-test.json'',
                       LedgerWrite ''sent-workflows-test.json'' [''workflow-1''],
                       LedgerRead ''sent-workflows-test.json'', AuditWrite False [series165],
                       TransportCall [series165]]\<rparr>"
  have 1: "length [series155, series165, series175] = length ?ids" by simp
  have 2: "0 < batchSize ?svc" by (simp add: liveService_def)
  have 3: "\<not> dryRun ?svc" by (simp add: liveService_def)
  have 4: "1 * batchSize ?svc < length ?ids" by (simp add: liveService_def)
  have 5: "submitMetrics ?svc (take (1 * batchSize ?svc) [series155, series165, series175])
             (take (1 * batchSize ?svc) ?ids) ?w = Some (Inr (), ?w1)"
    by (simp add: eval_defs failOnCall_def submitLoop.simps)
  have sub: "subBatch ?svc ?w1 (slice (1 * batchSize ?svc) (1 * batchSize ?svc + batchSize ?svc)
             (pairUp [series155, series165, series175] ?ids)) = [(series165, ''workflow-2'')]"
    by (simp add: eval_defs subBatch_def upt_rec)
  have 6: "subBatch ?svc ?w1 (slice (1 * batchSize ?svc) (1 * batchSize ?svc + batchSize ?svc)
             (pairUp [series155, series165, series175] ?ids)) \<noteq> []"
    by (simp only: sub) simp
  have 7: "metricsApi ?svc (transportCalls (trace ?w1))
             (map fst (subBatch ?svc ?w1 (slice (1 * batchSize ?svc)
                (1 * batchSize ?svc + batchSize ?svc) (pairUp [series155, series165, series175] ?ids)))) \<noteq> Resolved"
    by (simp only: sub) (simp add: liveService_def failOnCall_def ledgerWorld_def)
  have 8: "payloadLogs (map fst (subBatch ?svc ?w1 (slice (1 * batchSize ?svc)
             (1 * batchSize ?svc + batchSize ?svc) (pairUp [series155, series165, series175] ?ids))))"
    by (simp only: sub) (simp add: payloadLogs_def)
  from transport_failure_atomic[OF 1 2 3 4 5 6 7 8] obtain w' where
    r: "submitMetrics ?svc [series155, series165, series175] ?ids ?w
          = Some (Inl (case metricsApi ?svc (transportCalls (trace ?w1))
                          (map fst (subBatch ?svc ?w1 (slice (1 * batchSize ?svc)
                             (1 * batchSize ?svc + batchSize ?svc) (pairUp [series155, series165, series175] ?ids)))) of
                        RejectedError m \<Rightarrow> ApiError m | _ \<Rightarrow> UnknownSubmitError), w')"
    and h: "\<forall>x. hasBeenSent (cacheFilePath ?svc) x w'
              = (hasBeenSent (cacheFilePath ?svc) x ?w \<or> x \<in> set (take (1 * batchSize ?svc) ?ids))"
    by blast
  have e: "submitMetrics ?svc [series155, series165, series175] ?ids ?w = Some (Inl (ApiError ''API Error''), ?w')"
    by (simp add: eval_defs failOnCall_def submitLoop.simps)
  from r e have w': "w' = ?w'" by simp
  from h have "\<not> hasBeenSent ''sent-workflows-test.json'' ''workflow-2'' ?w'"
    and "\<not> hasBeenSent ''sent-workflows-test.json'' ''workflow-3'' ?w'"
    unfolding w' by (simp_all add: liveService_def hasBeenSent_def readCache_def ledgerWorld_def)
  with e show ?thesis by simp
qed

subsection \<open>The pairing precondition\<close>

text \<open>
  C3. When \<^verbatim>\<open>payload.series\<close> and \<^verbatim>\<open>workflowIds\<close> differ in length, \<^verbatim>\<open>submitMetrics\<close> throws
  the pairing-mismatch error and the state is the one it started in: no Transport call, no
  read or write of the ledger and no audit log file.
\<close>

theorem submitMetrics_pairing_mismatch:
  assumes "length series \<noteq> length workflowIds"
  shows "submitMetrics svc series workflowIds w
           = Some (Inl (PairingMismatch (length series) (length workflowIds)), w)
       \<and> (\<forall>r w'. submitMetrics svc series workflowIds w = Some (r, w') \<longrightarrow>
             transportCalls (trace w') = transportCalls (trace w)
           \<and> ledgerReads (trace w') = ledgerReads (trace w)
           \<and> ledgerWrites (trace w') = ledgerWrites (trace w)
           \<and> auditWrites (trace w') = auditWrites (trace w)
           \<and> files w' = files w)"
  using assms by (simp add: submitMetrics_def)

theorem submitMetrics_pairing_mismatch_witness:
  "length [series155] \<noteq> length [''workflow-1'', ''workflow-2'']
   \<and> submitMetrics (liveService 10 alwaysOk) [series155] [''workflow-1'', ''workflow-2''] freshWorld
       = Some (Inl (PairingMismatch 1 2), freshWorld)"
  using submitMetrics_pairing_mismatch[of "[series155]" "[''workflow-1'', ''workflow-2'']" "liveService 10 alwaysOk" freshWorld]
  by simp

subsection \<open>Batch partitioning\<close>

text \<open>
  C4, as stated, fails on three pairs whose third identifier repeats the first: with
  \<^verbatim>\<open>batchSize\<close> 2 and an empty ledger the first window delivers \<^verbatim>\<open>workflow-1\<close>, the sub-batch of
  the second window is empty, and one Transport call is made, not two. It also fails on
  three pairs with three identifiers when the timestamp of a point of the first window is
  \<^verbatim>\<open>NaN\<close>: the audit log of the first sub-batch throws before the Transport is called, and no
  Transport call is made.
\<close>

theorem batch_partitioning_counterexample:
  "submitMetrics (liveService 2 alwaysOk) [series155, series165, series175]
       [''workflow-1'', ''workflow-2'', ''workflow-1''] (ledgerWorld ''sent-workflows-test.json'' [])
     = Some (Inr (),
         ledgerWorld ''sent-workflows-test.json'' [''workflow-1'', ''workflow-2'']
           \<lparr>trace := [LedgerRead ''sent-workflows-test.json'', LedgerRead ''sent-workflows-test.json'',
                       AuditWrite False [series155, series165], TransportCall [series155, series165],
                       LedgerRead ''sent-workflows-test.json'',
                       LedgerWrite ''sent-workflows-test.json'' [''workflow-1'', ''workflow-2''],
                       LedgerRead ''sent-workflows-test.json'']\<rparr>)
 \<and> transportCalls [LedgerRead ''sent-workflows-test.json'', LedgerRead ''sent-workflows-test.json'',
                       AuditWrite False [series155, series165], TransportCall [series155, series165],
                       LedgerRead ''sent-workflows-test.json'',
                       LedgerWrite ''sent-workflows-test.json'' [''workflow-1'', ''workflow-2''],
                       LedgerRead ''sent-workflows-test.json''] = [[series155, series165]]
 \<and> length [[series155, series165]] \<noteq> 2
 \<and> submitMetrics (liveService 2 alwaysOk) [series155, seriesNaN, series175]
       [''workflow-1'', ''workflow-2'', ''workflow-3''] (ledgerWorld ''sent-workflows-test.json'' [])
     = Some (Inl InvalidTimeValue,
         ledgerWorld ''sent-workflows-test.json'' []
           \<lparr>trace := [LedgerRead ''sent-workflows-test.json'', LedgerRead ''sent-workflows-test.json'']\<rparr>)
 \<and> transportCalls [LedgerRead ''sent-workflows-test.json'', LedgerRead ''sent-workflows-test.json'']
     = ([] :: metric_series list list)"
  by (simp add: eval_defs submitLoop.simps)

text \<open>
  C4, amended. For arrays of the same length, \<^verbatim>\<open>submitMetrics\<close> pairs \<^verbatim>\<open>series[i]\<close> with
  \<^verbatim>\<open>workflowIds[i]\<close>; the windows are the consecutive slices of \<^verbatim>\<open>batchSize\<close> pairs, none empty,
  and together they are the paired sequence; with a positive \<^verbatim>\<open>batchSize\<close> the call returns.
  In live mode the Transport payloads of the call are, in order, the non-empty sub-batches
  of the windows (the pairs of a window, in their order, whose identifier was neither
  delivered when the call started nor an identifier of an earlier window): all of them
  when the call returns normally, and an initial part of them when it throws. In
  particular, with \<^verbatim>\<open>batchSize\<close> 2, an empty ledger, a Transport that accepts every payload
  and three pairs whose third identifier differs from the first two and whose timestamps
  the audit log can print, exactly two Transport calls are made, with the first two series
  and with the third.
\<close>

theorem batch_partitioning:
  "(length series = length ids \<longrightarrow>
      pairUp series ids = zip series ids
    \<and> (0 < batchSize svc \<longrightarrow>
          concat (windows (batchSize svc) (pairUp series ids)) = pairUp series ids
        \<and> (\<exists>y. submitMetrics svc series ids w = Some y))
    \<and> (\<forall>k < length (windows (batchSize svc) (pairUp series ids)).
          windows (batchSize svc) (pairUp series ids) ! k
            = slice (k * batchSize svc) (k * batchSize svc + batchSize svc) (pairUp series ids)
        \<and> windows (batchSize svc) (pairUp series ids) ! k \<noteq> []
        \<and> length (windows (batchSize svc) (pairUp series ids) ! k) \<le> batchSize svc)
    \<and> (\<forall>r w'. \<not> dryRun svc \<and> submitMetrics svc series ids w = Some (r, w') \<longrightarrow>
          transportCalls (trace w') = transportCalls (trace w) @ newCalls w w'
        \<and> prefix (newCalls w w')
             (map (map fst) (subBatches (\<lambda>x. hasBeenSent (cacheFilePath svc) x w)
                (windows (batchSize svc) (pairUp series ids))))
        \<and> (r = Inr () \<longrightarrow> newCalls w w'
             = map (map fst) (subBatches (\<lambda>x. hasBeenSent (cacheFilePath svc) x w)
                (windows (batchSize svc) (pairUp series ids))))))
 \<and> (batchSize svc = 2 \<and> \<not> dryRun svc \<and> files w (cacheFilePath svc) = SentFile []
      \<and> (\<forall>calls payload. metricsApi svc calls payload = Resolved) \<and> i2 \<noteq> i0 \<and> i2 \<noteq> i1
      \<and> payloadLogs [s0, s1, s2] \<longrightarrow>
      (\<exists>w'. submitMetrics svc [s0, s1, s2] [i0, i1, i2] w = Some (Inr (), w')
          \<and> newCalls w w' = [[s0, s1], [s2]]))"
proof (intro conjI impI)
  assume len: "length series = length ids"
  then show z: "pairUp series ids = zip series ids" by (rule pairUp_zip)
  show "\<forall>k < length (windows (batchSize svc) (pairUp series ids)).
          windows (batchSize svc) (pairUp series ids) ! k
            = slice (k * batchSize svc) (k * batchSize svc + batchSize svc) (pairUp series ids)
        \<and> windows (batchSize svc) (pairUp series ids) ! k \<noteq> []
        \<and> length (windows (batchSize svc) (pairUp series ids) ! k) \<le> batchSize svc"
    using windows_nth windows_bounds nth_mem by blast
  show "\<forall>r w'. \<not> dryRun svc \<and> submitMetrics svc series ids w = Some (r, w') \<longrightarrow>
          transportCalls (trace w') = transportCalls (trace w) @ newCalls w w'
        \<and> prefix (newCalls w w')
             (map (map fst) (subBatches (\<lambda>x. hasBeenSent (cacheFilePath svc) x w)
                (windows (batchSize svc) (pairUp series ids))))
        \<and> (r = Inr () \<longrightarrow> newCalls w w'
             = map (map fst) (subBatches (\<lambda>x. hasBeenSent (cacheFilePath svc) x w)
                (windows (batchSize svc) (pairUp series ids))))"
  proof (intro allI impI, elim conjE)
    fix r w' assume live: "\<not> dryRun svc" and s: "submitMetrics svc series ids w = Some (r, w')"
    from submitMetrics_newCalls[OF s len live]
    show "transportCalls (trace w') = transportCalls (trace w) @ newCalls w w'
        \<and> prefix (newCalls w w')
             (map (map fst) (subBatches (\<lambda>x. hasBeenSent (cacheFilePath svc) x w)
                (windows (batchSize svc) (pairUp series ids))))
        \<and> (r = Inr () \<longrightarrow> newCalls w w'
             = map (map fst) (subBatches (\<lambda>x. hasBeenSent (cacheFilePath svc) x w)
                (windows (batchSize svc) (pairUp series ids))))"
      by (simp add: z)
  qed
  assume pos: "0 < batchSize svc"
  show "concat (windows (batchSize svc) (pairUp series ids)) = pairUp series ids"
    using pos by (rule concat_windows)
  show "\<exists>y. submitMetrics svc series ids w = Some y"
    using submitMetrics_windows[OF pos len] by simp
next
  assume a: "batchSize svc = 2 \<and> \<not> dryRun svc \<and> files w (cacheFilePath svc) = SentFile []
      \<and> (\<forall>calls payload. metricsApi svc calls payload = Resolved) \<and> i2 \<noteq> i0 \<and> i2 \<noteq> i1
      \<and> payloadLogs [s0, s1, s2]"
  then have bs: "batchSize svc = 2" and live: "\<not> dryRun svc"
    and empty: "files w (cacheFilePath svc) = SentFile []"
    and ok: "\<forall>calls payload. metricsApi svc calls payload = Resolved"
    and ne: "i2 \<noteq> i0" "i2 \<noteq> i1"
    and logs: "payloadLogs [s0, s1, s2]" by simp_all
  have len: "length [s0, s1, s2] = length [i0, i1, i2]" by simp
  have pos: "0 < batchSize svc" using bs by simp
  from submitMetrics_success[OF pos len empty disjI2[OF ok] logs] obtain w' where
    s: "submitMetrics svc [s0, s1, s2] [i0, i1, i2] w = Some (Inr (), w')" by blast
  have sent: "(\<lambda>x. hasBeenSent (cacheFilePath svc) x w) = (\<lambda>x. False)"
    using empty by (simp add: hasBeenSent_SentFile)
  from submitMetrics_newCalls(3)[OF s len live]
  have "newCalls w w' = [[s0, s1], [s2]]"
    using ne by (simp add: bs sent windows_three)
  with s show "\<exists>w'. submitMetrics svc [s0, s1, s2] [i0, i1, i2] w = Some (Inr (), w')
          \<and> newCalls w w' = [[s0, s1], [s2]]" by blast
qed

theorem batch_partitioning_witness:
  "length [series155, series165, series175] = length [''workflow-1'', ''workflow-2'', ''workflow-3'']
 \<and> batchSize (liveService 2 alwaysOk :: metric_series service) = 2
 \<and> \<not> dryRun (liveService 2 alwaysOk :: metric_series service)
 \<and> files (ledgerWorld ''sent-workflows-test.json'' [] :: metric_series world)
       (cacheFilePath (liveService 2 alwaysOk :: metric_series service)) = SentFile []
 \<and> (\<forall>calls payload. metricsApi (liveService 2 alwaysOk :: metric_series service) calls payload = Resolved)
 \<and> ''workflow-3'' \<noteq> ''workflow-1'' \<and> ''workflow-3'' \<noteq> ''workflow-2''
 \<and> payloadLogs [series155, series165, series175]
 \<and> windows 2 (pairUp [series155, series165, series175] [''workflow-1'', ''workflow-2'', ''workflow-3''])
     = [[(series155, ''workflow-1''), (series165, ''workflow-2'')], [(series175, ''workflow-3'')]]
 \<and> submitMetrics (liveService 2 alwaysOk) [series155, series165, series175]
       [''workflow-1'', ''workflow-2'', ''workflow-3''] (ledgerWorld ''sent-workflows-test.json'' [])
     = Some (Inr (),
         ledgerWorld ''sent-workflows-test.json'' [''workflow-1'', ''workflow-2'', ''workflow-3'']
           \<lparr>trace := [LedgerRead ''sent-workflows-test.json'', LedgerRead ''sent-workflows-test.json'',
                       AuditWrite False [series155, series165], TransportCall [series155, series165],
                       LedgerRead ''sent-workflows-test.json'',
                       LedgerWrite ''sent-workflows-test.json'' [''workflow-1'', ''workflow-2''],
                       LedgerRead ''sent-workflows-test.json'',
                       AuditWrite False [series175], TransportCall [series175],
                       LedgerRead ''sent-workflows-test.json'',
                       LedgerWrite ''sent-workflows-test.json''
                         [''workflow-1'', ''workflow-2'', ''workflow-3'']]\<rparr>)
 \<and> newCalls (ledgerWorld ''sent-workflows-test.json'' [] :: metric_series world)
       (ledgerWorld ''sent-workflows-test.json'' [''workflow-1'', ''workflow-2'', ''workflow-3'']
           \<lparr>trace := [LedgerRead ''sent-workflows-test.json'', LedgerRead ''sent-workflows-test.json'',
                       AuditWrite False [series155, series165], TransportCall [series155, series165],
                       LedgerRead ''sent-workflows-test.json'',
                       LedgerWrite ''sent-workflows-test.json'' [''workflow-1'', ''workflow-2''],
                       LedgerRead ''sent-workflows-test.json'',
                       AuditWrite False [series175], TransportCall [series175],
                       LedgerRead ''sent-workflows-test.json'',
                       LedgerWrite ''sent-workflows-test.json''
                         [''workflow-1'', ''workflow-2'', ''workflow-3'']]\<rparr>)
     = [[series155, series165], [series175]]"
proof -
  let ?svc = "liveService 2 alwaysOk :: metric_series service"
  let ?w = "ledgerWorld ''sent-workflows-test.json'' [] :: metric_series world"
  let ?ids = "[''workflow-1'', ''workflow-2'', ''workflow-3'']"
  note T = batch_partitioning[of "[series155, series165, series175]" ?ids ?svc ?w "''workflow-3''" "''workflow-1''"
      "''workflow-2''" series155 series165 series175]
  have h: "batchSize ?svc = 2 \<and> \<not> dryRun ?svc \<and> files ?w (cacheFilePath ?svc) = SentFile []
      \<and> (\<forall>calls payload. metricsApi ?svc calls payload = Resolved)
      \<and> ''workflow-3'' \<noteq> ''workflow-1'' \<and> ''workflow-3'' \<noteq> ''workflow-2''
      \<and> payloadLogs [series155, series165, series175]"
    by (simp add: liveService_def alwaysOk_def ledgerWorld_def payloadLogs_def)
  from T h obtain w' where w': "submitMetrics ?svc [series155, series165, series175] ?ids ?w = Some (Inr (), w')"
    "newCalls ?w w' = [[series155, series165], [series175]]" by blast
  have l: "length [series155, series165, series175] = length ?ids" by simp
  from T l have z: "pairUp [series155, series165, series175] ?ids = zip [series155, series165, series175] ?ids" by blast
  have e: "submitMetrics ?svc [series155, series165, series175] ?ids ?w = Some (Inr (),
         ledgerWorld ''sent-workflows-test.json'' [''workflow-1'', ''workflow-2'', ''workflow-3'']
           \<lparr>trace := [LedgerRead ''sent-workflows-test.json'', LedgerRead ''sent-workflows-test.json'',
                       AuditWrite False [series155, series165], TransportCall [series155, series165],
                       LedgerRead ''sent-workflows-test.json'',
                       LedgerWrite ''sent-workflows-test.json'' [''workflow-1'', ''workflow-2''],
                       LedgerRead ''sent-workflows-test.json'',
                       AuditWrite False [series175], TransportCall [series175],
                       LedgerRead ''sent-workflows-test.json'',
                       LedgerWrite ''sent-workflows-test.json''
                         [''workflow-1'', ''workflow-2'', ''workflow-3'']]\<rparr>)"
    by (simp add: eval_defs submitLoop.simps)
  from w' e h l show ?thesis
    by (simp add: z windows_three)
qed

subsection \<open>Dry-run and live ledgers\<close>



subsection \<open>Reading the ledger\<close>

text \<open>
  C6. \<^verbatim>\<open>hasBeenSent\<close> always answers (its result is a Boolean, the \<^verbatim>\<open>catch\<close> block covers the
  whole body). On a file that is missing or cannot be read as a ledger it answers
  \<^verbatim>\<open>false\<close>; on a ledger file it answers whether the identifier is in the file; and on a
  ledger that the program created and then filled by calls of \<^verbatim>\<open>markAsSent\<close>, it answers
  \<^verbatim>\<open>true\<close> exactly for the identifiers passed to one of these calls.
\<close>

theorem hasBeenSent_fail_open:
  "(files w path = Missing \<or> files w path = Corrupt \<longrightarrow> \<not> hasBeenSent path x w)
 \<and> (files w path = SentFile sent \<longrightarrow> hasBeenSent path x w = (x \<in> set sent))
 \<and> (files w path = SentFile sent \<longrightarrow>
      hasBeenSent path x (fold (\<lambda>ids w. snd (markAsSent path ids w)) idss w)
        = (x \<in> set sent \<or> (\<exists>ids\<in>set idss. x \<in> set ids)))
 \<and> (files w path = Missing \<longrightarrow>
      hasBeenSent path x (fold (\<lambda>ids w. snd (markAsSent path ids w)) idss (snd (newWorkflowCache path w)))
        = (\<exists>ids\<in>set idss. x \<in> set ids))"
proof (intro conjI impI)
  assume "files w path = Missing \<or> files w path = Corrupt"
  then show "\<not> hasBeenSent path x w" by (rule hasBeenSent_unreadable)
next
  assume "files w path = SentFile sent"
  then show "hasBeenSent path x w = (x \<in> set sent)" by (rule hasBeenSent_SentFile)
next
  assume "files w path = SentFile sent"
  from fold_markAsSent[OF this, of idss] obtain sent' where
    "files (fold (\<lambda>ids w. snd (markAsSent path ids w)) idss w) path = SentFile sent'"
    "set sent' = set sent \<union> set (concat idss)" by blast
  then show "hasBeenSent path x (fold (\<lambda>ids w. snd (markAsSent path ids w)) idss w)
        = (x \<in> set sent \<or> (\<exists>ids\<in>set idss. x \<in> set ids))"
    by (auto simp: hasBeenSent_SentFile)
next
  assume "files w path = Missing"
  then have "files (snd (newWorkflowCache path w)) path = SentFile []"
    by (simp add: newWorkflowCache_def ensureCacheExists_def)
  from fold_markAsSent[OF this, of idss] obtain sent' where
    "files (fold (\<lambda>ids w. snd (markAsSent path ids w)) idss (snd (newWorkflowCache path w))) path = SentFile sent'"
    "set sent' = set (concat idss)" by auto
  then show "hasBeenSent path x (fold (\<lambda>ids w. snd (markAsSent path ids w)) idss (snd (newWorkflowCache path w)))
        = (\<exists>ids\<in>set idss. x \<in> set ids)"
    by (auto simp: hasBeenSent_SentFile)
qed

theorem hasBeenSent_fail_open_witness:
  "\<not> hasBeenSent ''workflow-cache-test.json'' ''test-workflow-1'' (freshWorld :: nat world)
 \<and> \<not> hasBeenSent ''workflow-cache-test.json'' ''test-workflow-1'' (corruptWorld :: nat world)
 \<and> \<not> hasBeenSent ''workflow-cache-test.json'' ''test-workflow-1''
       (snd (newWorkflowCache ''workflow-cache-test.json'' (freshWorld :: nat world)))
 \<and> hasBeenSent ''workflow-cache-test.json'' ''test-workflow-1''
       (fold (\<lambda>ids w. snd (markAsSent ''workflow-cache-test.json'' ids w)) [[''test-workflow-1'']]
          (snd (newWorkflowCache ''workflow-cache-test.json'' (freshWorld :: nat world))))
 \<and> \<not> hasBeenSent ''workflow-cache-test.json'' ''any-id''
       (fold (\<lambda>ids w. snd (markAsSent ''workflow-cache-test.json'' ids w)) [[''test-workflow-1'']]
          (snd (newWorkflowCache ''workflow-cache-test.json'' (freshWorld :: nat world))))"
  using hasBeenSent_fail_open[of "freshWorld :: nat world" "''workflow-cache-test.json''" "''test-workflow-1''" "[]" "[[''test-workflow-1'']]"]
    hasBeenSent_fail_open[of "freshWorld :: nat world" "''workflow-cache-test.json''" "''any-id''" "[]" "[[''test-workflow-1'']]"]
    hasBeenSent_fail_open[of "corruptWorld :: nat world" "''workflow-cache-test.json''" "''test-workflow-1''" "[]" "[]"]
    hasBeenSent_fail_open[of "snd (newWorkflowCache ''workflow-cache-test.json'' (freshWorld :: nat world))" "''workflow-cache-test.json''" "''test-workflow-1''" "[]" "[]"]
  by (simp add: freshWorld_def corruptWorld_def newWorkflowCache_def ensureCacheExists_def)

subsection \<open>Writing the ledger\<close>

text \<open>
  C7. On a ledger file with the entries \<open>S\<close>, \<^verbatim>\<open>markAsSent(L)\<close> writes a file whose entries
  are, as a set, the union of \<open>S\<close> and \<open>L\<close>, with no entry twice; when every identifier of
  \<open>L\<close> is already there the set is unchanged (and so is the file, if it had no duplicates),
  and a second \<^verbatim>\<open>markAsSent(L)\<close> leaves the file as the first one wrote it. No operation
  removes an entry: an identifier that \<^verbatim>\<open>hasBeenSent\<close> finds is still found after
  \<^verbatim>\<open>markAsSent\<close>, after the constructors of \<^verbatim>\<open>WorkflowCache\<close> and \<^verbatim>\<open>DatadogService\<close>, and after
  \<^verbatim>\<open>submitMetrics\<close>, whatever its result.
\<close>

theorem markAsSent_set_insert:
  "(files w path = SentFile S \<longrightarrow>
      (\<exists>S'. markAsSent path L w
               = (Inr (), w\<lparr>files := (files w)(path := SentFile S'),
                            trace := trace w @ [LedgerRead path, LedgerWrite path S']\<rparr>)
          \<and> set S' = set S \<union> set L \<and> distinct S'
          \<and> (set L \<subseteq> set S \<longrightarrow> set S' = set S)
          \<and> (distinct S \<and> set L \<subseteq> set S \<longrightarrow> S' = S)
          \<and> files (snd (markAsSent path L (snd (markAsSent path L w)))) path = SentFile S'))
 \<and> (\<forall>p x. hasBeenSent p x w \<longrightarrow> hasBeenSent p x (snd (markAsSent path L w)))
 \<and> (\<forall>p x. hasBeenSent p x w \<longrightarrow> hasBeenSent p x (snd (newWorkflowCache path w)))
 \<and> (\<forall>p x. hasBeenSent p x w \<longrightarrow> hasBeenSent p x (snd (newDatadogService opts e api w)))
 \<and> (\<forall>p x r w'. hasBeenSent p x w \<longrightarrow> submitMetrics svc series ids w = Some (r, w')
        \<longrightarrow> hasBeenSent p x w')"
proof (intro conjI impI allI)
  assume f: "files w path = SentFile S"
  let ?S' = "setOrder (S @ L)"
  let ?w' = "w\<lparr>files := (files w)(path := SentFile ?S'),
                 trace := trace w @ [LedgerRead path, LedgerWrite path ?S']\<rparr>"
  have m: "markAsSent path L w = (Inr (), ?w')"
    using f by (rule markAsSent_SentFile)
  have f': "files ?w' path = SentFile ?S'" by simp
  have twice: "files (snd (markAsSent path L (snd (markAsSent path L w)))) path = SentFile ?S'"
    using markAsSent_SentFile[OF f', of L]
    by (simp add: m setOrder_distinct_append[OF distinct_setOrder] set_setOrder)
  show "\<exists>S'. markAsSent path L w
               = (Inr (), w\<lparr>files := (files w)(path := SentFile S'),
                            trace := trace w @ [LedgerRead path, LedgerWrite path S']\<rparr>)
          \<and> set S' = set S \<union> set L \<and> distinct S'
          \<and> (set L \<subseteq> set S \<longrightarrow> set S' = set S)
          \<and> (distinct S \<and> set L \<subseteq> set S \<longrightarrow> S' = S)
          \<and> files (snd (markAsSent path L (snd (markAsSent path L w)))) path = SentFile S'"
  proof (intro exI[of _ ?S'] conjI impI)
    show "markAsSent path L w = (Inr (), ?w')" by (rule m)
    show "set ?S' = set S \<union> set L" by (simp add: set_setOrder)
    show "distinct ?S'" by (rule distinct_setOrder)
    show "set ?S' = set S" if "set L \<subseteq> set S" using that by (auto simp: set_setOrder)
    show "?S' = S" if "distinct S \<and> set L \<subseteq> set S" using that by (simp add: setOrder_distinct_append)
    show "files (snd (markAsSent path L (snd (markAsSent path L w)))) path = SentFile ?S'" by (rule twice)
  qed
next
  fix p x assume "hasBeenSent p x w"
  then show "hasBeenSent p x (snd (markAsSent path L w))"
    using markAsSent_mono[of path L w "fst (markAsSent path L w)" "snd (markAsSent path L w)" p x] by simp
next
  fix p x assume "hasBeenSent p x w"
  then show "hasBeenSent p x (snd (newWorkflowCache path w))"
    by (simp add: newWorkflowCache_def ensureCacheExists_mono)
next
  fix p x assume "hasBeenSent p x w"
  then show "hasBeenSent p x (snd (newDatadogService opts e api w))" by (rule newDatadogService_mono)
next
  fix p x r w' assume "hasBeenSent p x w" "submitMetrics svc series ids w = Some (r, w')"
  then show "hasBeenSent p x w'" using submitMetrics_mono by blast
qed

theorem markAsSent_set_insert_witness:
  "files (ledgerWorld ''workflow-cache-test.json'' [''workflow-2''] :: metric_series world) ''workflow-cache-test.json''
      = SentFile [''workflow-2'']
 \<and> files (snd (markAsSent ''workflow-cache-test.json'' [''workflow-1'', ''workflow-2'', ''workflow-1'']
        (ledgerWorld ''workflow-cache-test.json'' [''workflow-2''] :: metric_series world))) ''workflow-cache-test.json''
      = SentFile [''workflow-2'', ''workflow-1'']
 \<and> hasBeenSent ''workflow-cache-test.json'' ''workflow-2''
        (ledgerWorld ''workflow-cache-test.json'' [''workflow-2''] :: metric_series world)
 \<and> hasBeenSent ''workflow-cache-test.json'' ''workflow-2''
        (snd (markAsSent ''workflow-cache-test.json'' [''workflow-1'', ''workflow-2'', ''workflow-1'']
          (ledgerWorld ''workflow-cache-test.json'' [''workflow-2''] :: metric_series world)))"
proof -
  let ?p = "''workflow-cache-test.json''"
  let ?L = "[''workflow-1'', ''workflow-2'', ''workflow-1'']"
  let ?w = "ledgerWorld ?p [''workflow-2''] :: metric_series world"
  note T = markAsSent_set_insert[of ?w ?p "[''workflow-2'']" ?L]
  have f: "files ?w ?p = SentFile [''workflow-2'']"
    by (simp add: ledgerWorld_def)
  have h: "hasBeenSent ?p ''workflow-2'' ?w"
    by (simp add: ledgerWorld_def hasBeenSent_def readCache_def)
  from T f obtain S' where S': "files (snd (markAsSent ?p ?L (snd (markAsSent ?p ?L ?w)))) ?p = SentFile S'"
    "markAsSent ?p ?L ?w
       = (Inr (), ?w\<lparr>files := (files ?w)(?p := SentFile S'),
                      trace := trace ?w @ [LedgerRead ?p, LedgerWrite ?p S']\<rparr>)"
    by blast
  have e: "files (snd (markAsSent ?p ?L ?w)) ?p = SentFile [''workflow-2'', ''workflow-1'']"
    by (simp add: ledgerWorld_def markAsSent_def readCache_def setOrder_def Let_def)
  from T h have m: "hasBeenSent ?p ''workflow-2'' (snd (markAsSent ?p ?L ?w))"
    by blast
  from f e h m show ?thesis by simp
qed

subsection \<open>Pairing then filtering against slicing by position\<close>

text \<open>
  C8, as stated, fails in its last part: the pairing version does not always submit
  exactly the series paired with undelivered identifiers.
  \<^item> With \<^verbatim>\<open>batchSize\<close> 2, an empty ledger and the identifiers \<^verbatim>\<open>workflow-1\<close>, \<^verbatim>\<open>workflow-2\<close>,
    \<^verbatim>\<open>workflow-1\<close>, no identifier is delivered when the call starts, so all three series are
    paired with undelivered identifiers; the call returns normally and has submitted the
    first two series only, because the first window has delivered \<^verbatim>\<open>workflow-1\<close> when the
    second window is filtered.
  \<^item> In dry-run mode no series is submitted.
  \<^item> When the Transport throws on the second of three windows, the series of the third
    window is not submitted.
\<close>

theorem batching_strategies_differ_counterexample:
  "submitMetrics (liveService 2 alwaysOk) [series155, series165, series175]
       [''workflow-1'', ''workflow-2'', ''workflow-1''] (ledgerWorld ''sent-workflows-test.json'' [])
     = Some (Inr (),
         ledgerWorld ''sent-workflows-test.json'' [''workflow-1'', ''workflow-2'']
           \<lparr>trace := [LedgerRead ''sent-workflows-test.json'', LedgerRead ''sent-workflows-test.json'',
                       AuditWrite False [series155, series165], TransportCall [series155, series165],
                       LedgerRead ''sent-workflows-test.json'',
                       LedgerWrite ''sent-workflows-test.json'' [''workflow-1'', ''workflow-2''],
                       LedgerRead ''sent-workflows-test.json'']\<rparr>)
 \<and> concat (newCalls (ledgerWorld ''sent-workflows-test.json'' [] :: metric_series world)
       (ledgerWorld ''sent-workflows-test.json'' [''workflow-1'', ''workflow-2'']
           \<lparr>trace := [LedgerRead ''sent-workflows-test.json'', LedgerRead ''sent-workflows-test.json'',
                       AuditWrite False [series155, series165], TransportCall [series155, series165],
                       LedgerRead ''sent-workflows-test.json'',
                       LedgerWrite ''sent-workflows-test.json'' [''workflow-1'', ''workflow-2''],
                       LedgerRead ''sent-workflows-test.json'']\<rparr>))
     = [series155, series165]
 \<and> map fst (filter (\<lambda>pair. \<not> hasBeenSent ''sent-workflows-test.json'' (snd pair)
          (ledgerWorld ''sent-workflows-test.json'' [] :: metric_series world))
        (pairUp [series155, series165, series175] [''workflow-1'', ''workflow-2'', ''workflow-1'']))
     = [series155, series165, series175]
 \<and> [series155, series165] \<noteq> [series155, series165, series175]
 \<and> submitMetrics \<lparr>dryRun = True, batchSize = 10, cacheFilePath = ''sent-workflows-dry-run-test.json'',
         metricsApi = alwaysOk\<rparr> [series155] [''workflow-1'']
       (ledgerWorld ''sent-workflows-dry-run-test.json'' [])
     = Some (Inr (),
         ledgerWorld ''sent-workflows-dry-run-test.json'' [''workflow-1'']
           \<lparr>trace := [LedgerRead ''sent-workflows-dry-run-test.json'', AuditWrite True [series155],
                       LedgerRead ''sent-workflows-dry-run-test.json'',
                       LedgerWrite ''sent-workflows-dry-run-test.json'' [''workflow-1'']]\<rparr>)
 \<and> concat (newCalls (ledgerWorld ''sent-workflows-dry-run-test.json'' [] :: metric_series world)
       (ledgerWorld ''sent-workflows-dry-run-test.json'' [''workflow-1'']
           \<lparr>trace := [LedgerRead ''sent-workflows-dry-run-test.json'', AuditWrite True [series155],
                       LedgerRead ''sent-workflows-dry-run-test.json'',
                       LedgerWrite ''sent-workflows-dry-run-test.json'' [''workflow-1'']]\<rparr>))
     = []
 \<and> map fst (filter (\<lambda>pair. \<not> hasBeenSent ''sent-workflows-dry-run-test.json'' (snd pair)
          (ledgerWorld ''sent-workflows-dry-run-test.json'' [] :: metric_series world))
        (pairUp [series155] [''workflow-1'']))
     = [series155]
 \<and> [] \<noteq> [series155]
 \<and> submitMetrics (liveService 1 (failOnCall 1 ''API Error'')) [series155, series165, series175]
       [''workflow-1'', ''workflow-2'', ''workflow-3''] (ledgerWorld ''sent-workflows-test.json'' [])
     = Some (Inl (ApiError ''API Error''),
         ledgerWorld ''sent-workflows-test.json'' [''workflow-1'']
           \<lparr>trace := [LedgerRead ''sent-workflows-test.json'', AuditWrite False [series155],
                       TransportCall [series155], LedgerRead ''sent-workflows-test.json'',
                       LedgerWrite ''sent-workflows-test.json'' [''workflow-1''],
                       LedgerRead ''sent-workflows-test.json'', AuditWrite False [series165],
                       TransportCall [series165]]\<rparr>)
 \<and> concat (newCalls (ledgerWorld ''sent-workflows-test.json'' [] :: metric_series world)
       (ledgerWorld ''sent-workflows-test.json'' [''workflow-1'']
           \<lparr>trace := [LedgerRead ''sent-workflows-test.json'', AuditWrite False [series155],
                       TransportCall [series155], LedgerRead ''sent-workflows-test.json'',
                       LedgerWrite ''sent-workflows-test.json'' [''workflow-1''],
                       LedgerRead ''sent-workflows-test.json'', AuditWrite False [series165],
                       TransportCall [series165]]\<rparr>))
     = [series155, series165]
 \<and> map fst (filter (\<lambda>pair. \<not> hasBeenSent ''sent-workflows-test.json'' (snd pair)
          (ledgerWorld ''sent-workflows-test.json'' [] :: metric_series world))
        (pairUp [series155, series165, series175] [''workflow-1'', ''workflow-2'', ''workflow-3'']))
     = [series155, series165, series175]"
  by (simp add: eval_defs failOnCall_def submitLoop.simps upt_rec)

text \<open>
  C8, amended. The two versions of \<^verbatim>\<open>submitMetrics\<close> differ. With \<^verbatim>\<open>batchSize\<close> 2, four pairs,
  and the first and third identifier already in the ledger, the positional-slice version
  filters the identifiers to the second and fourth, takes \<^verbatim>\<open>payload.series.slice(0, 2)\<close> as
  their payload, and so submits the first and second series, while the pairing version
  submits the second and the fourth, the series paired with the identifiers that are not
  delivered. For the pairing version in general: whatever a call returns, the series it
  hands to the Transport are, in order, among the series paired with identifiers the
  ledger did not hold when the call started; and when a live call returns normally they
  are exactly the series of the sub-batches of its windows, which for an input without
  repeated identifiers are exactly the series paired with the identifiers the ledger did
  not hold. Such a call returns normally whenever \<^verbatim>\<open>batchSize\<close> is positive, the arrays have
  the same length, the timestamps are ones the audit log can print, the ledger is readable
  and the Transport accepts every payload.
\<close>

theorem batching_strategies_differ:
  "submitMetricsPositional (liveService 2 alwaysOk) [series155, series165, series175, series185]
       [''workflow-1'', ''workflow-2'', ''workflow-3'', ''workflow-4'']
       (ledgerWorld ''sent-workflows-test.json'' [''workflow-1'', ''workflow-3''])
     = Some (Inr (),
         ledgerWorld ''sent-workflows-test.json''
             [''workflow-1'', ''workflow-3'', ''workflow-2'', ''workflow-4'']
           \<lparr>trace := [LedgerRead ''sent-workflows-test.json'', LedgerRead ''sent-workflows-test.json'',
                       LedgerRead ''sent-workflows-test.json'', LedgerRead ''sent-workflows-test.json'',
                       AuditWrite False [series155, series165], TransportCall [series155, series165],
                       LedgerRead ''sent-workflows-test.json'',
                       LedgerWrite ''sent-workflows-test.json''
                         [''workflow-1'', ''workflow-3'', ''workflow-2'', ''workflow-4'']]\<rparr>)
 \<and> submitMetrics (liveService 2 alwaysOk) [series155, series165, series175, series185]
       [''workflow-1'', ''workflow-2'', ''workflow-3'', ''workflow-4'']
       (ledgerWorld ''sent-workflows-test.json'' [''workflow-1'', ''workflow-3''])
     = Some (Inr (),
         ledgerWorld ''sent-workflows-test.json''
             [''workflow-1'', ''workflow-3'', ''workflow-2'', ''workflow-4'']
           \<lparr>trace := [LedgerRead ''sent-workflows-test.json'', LedgerRead ''sent-workflows-test.json'',
                       AuditWrite False [series165], TransportCall [series165],
                       LedgerRead ''sent-workflows-test.json'',
                       LedgerWrite ''sent-workflows-test.json''
                         [''workflow-1'', ''workflow-3'', ''workflow-2''],
                       LedgerRead ''sent-workflows-test.json'', LedgerRead ''sent-workflows-test.json'',
                       AuditWrite False [series185], TransportCall [series185],
                       LedgerRead ''sent-workflows-test.json'',
                       LedgerWrite ''sent-workflows-test.json''
                         [''workflow-1'', ''workflow-3'', ''workflow-2'', ''workflow-4'']]\<rparr>)
 \<and> set (concat [[series155, series165]]) \<noteq> set (concat [[series165], [series185]])
 \<and> map fst (filter (\<lambda>pair. \<not> hasBeenSent ''sent-workflows-test.json'' (snd pair)
          (ledgerWorld ''sent-workflows-test.json'' [''workflow-1'', ''workflow-3''] :: metric_series world))
        (pairUp [series155, series165, series175, series185]
           [''workflow-1'', ''workflow-2'', ''workflow-3'', ''workflow-4'']))
     = [series165, series185]
 \<and> (submitMetrics svc series ids w = Some (r, w') \<longrightarrow>
       subseq (concat (newCalls w w'))
         (map fst (filter (\<lambda>pair. \<not> hasBeenSent (cacheFilePath svc) (snd pair) w)
            (pairUp series ids))))
 \<and> (submitMetrics svc series ids w = Some (Inr (), w') \<and> \<not> dryRun svc \<longrightarrow>
       concat (newCalls w w')
         = map fst (concat (subBatches (\<lambda>x. hasBeenSent (cacheFilePath svc) x w)
             (windows (batchSize svc) (pairUp series ids))))
     \<and> (distinct ids \<longrightarrow>
          concat (newCalls w w')
            = map fst (filter (\<lambda>pair. \<not> hasBeenSent (cacheFilePath svc) (snd pair) w)
                (pairUp series ids))))
 \<and> (0 < batchSize svc \<and> length series = length ids \<and> \<not> dryRun svc
      \<and> files w (cacheFilePath svc) = SentFile sent \<and> payloadLogs series
      \<and> (\<forall>calls payload. metricsApi svc calls payload = Resolved) \<longrightarrow>
      (\<exists>w2. submitMetrics svc series ids w = Some (Inr (), w2)))"
proof (intro conjI impI)
  show "submitMetricsPositional (liveService 2 alwaysOk) [series155, series165, series175, series185]
       [''workflow-1'', ''workflow-2'', ''workflow-3'', ''workflow-4'']
       (ledgerWorld ''sent-workflows-test.json'' [''workflow-1'', ''workflow-3''])
     = Some (Inr (),
         ledgerWorld ''sent-workflows-test.json''
             [''workflow-1'', ''workflow-3'', ''workflow-2'', ''workflow-4'']
           \<lparr>trace := [LedgerRead ''sent-workflows-test.json'', LedgerRead ''sent-workflows-test.json'',
                       LedgerRead ''sent-workflows-test.json'', LedgerRead ''sent-workflows-test.json'',
                       AuditWrite False [series155, series165], TransportCall [series155, series165],
                       LedgerRead ''sent-workflows-test.json'',
                       LedgerWrite ''sent-workflows-test.json''
                         [''workflow-1'', ''workflow-3'', ''workflow-2'', ''workflow-4'']]\<rparr>)"
    by (simp add: submitMetricsPositional_def filterNewWorkflows_def processPositional_def
        positionalLoop.simps eval_defs)
  show "submitMetrics (liveService 2 alwaysOk) [series155, series165, series175, series185]
       [''workflow-1'', ''workflow-2'', ''workflow-3'', ''workflow-4'']
       (ledgerWorld ''sent-workflows-test.json'' [''workflow-1'', ''workflow-3''])
     = Some (Inr (),
         ledgerWorld ''sent-workflows-test.json''
             [''workflow-1'', ''workflow-3'', ''workflow-2'', ''workflow-4'']
           \<lparr>trace := [LedgerRead ''sent-workflows-test.json'', LedgerRead ''sent-workflows-test.json'',
                       AuditWrite False [series165], TransportCall [series165],
                       LedgerRead ''sent-workflows-test.json'',
                       LedgerWrite ''sent-workflows-test.json''
                         [''workflow-1'', ''workflow-3'', ''workflow-2''],
                       LedgerRead ''sent-workflows-test.json'', LedgerRead ''sent-workflows-test.json'',
                       AuditWrite False [series185], TransportCall [series185],
                       LedgerRead ''sent-workflows-test.json'',
                       LedgerWrite ''sent-workflows-test.json''
                         [''workflow-1'', ''workflow-3'', ''workflow-2'', ''workflow-4'']]\<rparr>)"
    by (simp add: eval_defs submitLoop.simps)
  show "set (concat [[series155, series165]]) \<noteq> set (concat [[series165], [series185]])"
  proof
    assume "set (concat [[series155, series165]]) = set (concat [[series165], [series185]])"
    moreover have "series155 \<in> set (concat [[series155, series165]])" by simp
    ultimately have "series155 \<in> set (concat [[series165], [series185]])" by (simp only:)
    then show False by (simp add: example_series_distinct)
  qed
  show "map fst (filter (\<lambda>pair. \<not> hasBeenSent ''sent-workflows-test.json'' (snd pair)
          (ledgerWorld ''sent-workflows-test.json'' [''workflow-1'', ''workflow-3''] :: metric_series world))
        (pairUp [series155, series165, series175, series185]
           [''workflow-1'', ''workflow-2'', ''workflow-3'', ''workflow-4'']))
     = [series165, series185]"
    by (simp add: eval_defs upt_rec)
next
  assume "submitMetrics svc series ids w = Some (r, w')"
  then show "subseq (concat (newCalls w w'))
         (map fst (filter (\<lambda>pair. \<not> hasBeenSent (cacheFilePath svc) (snd pair) w)
            (pairUp series ids)))"
    by (rule submitMetrics_points_subseq)
next
  assume a: "submitMetrics svc series ids w = Some (Inr (), w') \<and> \<not> dryRun svc"
  then show "concat (newCalls w w')
         = map fst (concat (subBatches (\<lambda>x. hasBeenSent (cacheFilePath svc) x w)
             (windows (batchSize svc) (pairUp series ids))))"
    using submitMetrics_points(1) by blast
  assume "distinct ids"
  with a show "concat (newCalls w w')
            = map fst (filter (\<lambda>pair. \<not> hasBeenSent (cacheFilePath svc) (snd pair) w)
                (pairUp series ids))"
    using submitMetrics_points(2) by blast
next
  assume a: "0 < batchSize svc \<and> length series = length ids \<and> \<not> dryRun svc
      \<and> files w (cacheFilePath svc) = SentFile sent \<and> payloadLogs series
      \<and> (\<forall>calls payload. metricsApi svc calls payload = Resolved)"
  then have "dryRun svc \<or> (\<forall>calls payload. metricsApi svc calls payload = Resolved)" by simp
  from submitMetrics_success[OF _ _ _ this] a
  show "\<exists>w2. submitMetrics svc series ids w = Some (Inr (), w2)" by blast
qed

theorem batching_strategies_differ_witness:
  "submitMetrics (liveService 2 alwaysOk) [series155, series165, series175, series185]
       [''workflow-1'', ''workflow-2'', ''workflow-3'', ''workflow-4'']
       (ledgerWorld ''sent-workflows-test.json'' [''workflow-1'', ''workflow-3''])
     = Some (Inr (),
         ledgerWorld ''sent-workflows-test.json''
             [''workflow-1'', ''workflow-3'', ''workflow-2'', ''workflow-4'']
           \<lparr>trace := [LedgerRead ''sent-workflows-test.json'', LedgerRead ''sent-workflows-test.json'',
                       AuditWrite False [series165], TransportCall [series165],
                       LedgerRead ''sent-workflows-test.json'',
                       LedgerWrite ''sent-workflows-test.json''
                         [''workflow-1'', ''workflow-3'', ''workflow-2''],
                       LedgerRead ''sent-workflows-test.json'', LedgerRead ''sent-workflows-test.json'',
                       AuditWrite False [series185], TransportCall [series185],
                       LedgerRead ''sent-workflows-test.json'',
                       LedgerWrite ''sent-workflows-test.json''
                         [''workflow-1'', ''workflow-3'', ''workflow-2'', ''workflow-4'']]\<rparr>)
 \<and> \<not> dryRun (liveService 2 alwaysOk :: metric_series service)
 \<and> distinct [''workflow-1'', ''workflow-2'', ''workflow-3'', ''workflow-4'']
 \<and> concat (newCalls (ledgerWorld ''sent-workflows-test.json'' [''workflow-1'', ''workflow-3''] :: metric_series world)
       (ledgerWorld ''sent-workflows-test.json''
             [''workflow-1'', ''workflow-3'', ''workflow-2'', ''workflow-4'']
           \<lparr>trace := [LedgerRead ''sent-workflows-test.json'', LedgerRead ''sent-workflows-test.json'',
                       AuditWrite False [series165], TransportCall [series165],
                       LedgerRead ''sent-workflows-test.json'',
                       LedgerWrite ''sent-workflows-test.json''
                         [''workflow-1'', ''workflow-3'', ''workflow-2''],
                       LedgerRead ''sent-workflows-test.json'', LedgerRead ''sent-workflows-test.json'',
                       AuditWrite False [series185], TransportCall [series185],
                       LedgerRead ''sent-workflows-test.json'',
                       LedgerWrite ''sent-workflows-test.json''
                         [''workflow-1'', ''workflow-3'', ''workflow-2'', ''workflow-4'']]\<rparr>))
     = map fst (filter (\<lambda>pair. \<not> hasBeenSent ''sent-workflows-test.json'' (snd pair)
          (ledgerWorld ''sent-workflows-test.json'' [''workflow-1'', ''workflow-3''] :: metric_series world))
        (pairUp [series155, series165, series175, series185]
           [''workflow-1'', ''workflow-2'', ''workflow-3'', ''workflow-4'']))"
proof -
  let ?svc = "liveService 2 alwaysOk :: metric_series service"
  let ?ids = "[''workflow-1'', ''workflow-2'', ''workflow-3'', ''workflow-4'']"
  let ?w = "ledgerWorld ''sent-workflows-test.json'' [''workflow-1'', ''workflow-3''] :: metric_series world"
  let ?w' = "ledgerWorld ''sent-workflows-test.json''
             [''workflow-1'', ''workflow-3'', ''workflow-2'', ''workflow-4'']
           \<lparr>trace := [LedgerRead ''sent-workflows-test.json'', LedgerRead ''sent-workflows-test.json'',
                       AuditWrite False [series165], TransportCall [series165],
                       LedgerRead ''sent-workflows-test.json'',
                       LedgerWrite ''sent-workflows-test.json''
                         [''workflow-1'', ''workflow-3'', ''workflow-2''],
                       LedgerRead ''sent-workflows-test.json'', LedgerRead ''sent-workflows-test.json'',
                       AuditWrite False [series185], TransportCall [series185],
                       LedgerRead ''sent-workflows-test.json'',
                       LedgerWrite ''sent-workflows-test.json''
                         [''workflow-1'', ''workflow-3'', ''workflow-2'', ''workflow-4'']]\<rparr>"
  note T = batching_strategies_differ[of ?svc "[series155, series165, series175, series185]" ?ids ?w "Inr ()" ?w']
  note run = T[THEN conjunct2, THEN conjunct1]
  have live: "\<not> dryRun ?svc" by (simp add: liveService_def)
  have d: "distinct ?ids" by simp
  note U = T[THEN conjunct2, THEN conjunct2, THEN conjunct2, THEN conjunct2, THEN conjunct2,
      THEN conjunct1, THEN mp, OF conjI[OF run live], THEN conjunct2, THEN mp, OF d]
  have path: "cacheFilePath ?svc = ''sent-workflows-test.json''" by (simp add: liveService_def)
  from run live d U show ?thesis by (simp only: path) simp
qed

subsection \<open>A repeated identifier inside one window\<close>



subsection \<open>An unreadable ledger\<close>



end
